theory Spec2Isabelle
  imports Complex_Main "HOL-Library.Log_Nat"
begin

section \<open>The load tester of \<open>main.py\<close>\<close>

text \<open>
  Python integers are modelled as \<open>int\<close>, exceptions as the left summand of a sum type.
  A Python float is modelled as the \<open>real\<close> it stands for. Where the value of a
  floating-point computation is what a property is about (the stride, the statistics),
  every operation is rounded to the nearest double as the machine does it. The latency of
  a request and the elapsed time of a step are carried as exact quotients: the
  properties stated about them do not depend on their last bit.
\<close>

datatype error =
    ZeroDivisionError   \<comment> \<open>float division by zero in \<open>calculate_ramp_up_step\<close>\<close>
  | ValueError          \<comment> \<open>\<open>range()\<close> called with step zero\<close>
  | RequestError        \<comment> \<open>any exception raised by \<open>client.post\<close>\<close>
  | StatisticsError     \<comment> \<open>\<open>statistics.mean\<close> of an empty list\<close>
  | OverflowError       \<comment> \<open>a quotient of integers too large for a float\<close>

subsection \<open>Doubles\<close>

text \<open>
  The binary exponent of a real other than 0: the \<open>e\<close> with
  \<open>2 ^ e \<le> \<bar>x\<bar> < 2 ^ (e + 1)\<close>, from the bit length of the integer part of \<open>\<bar>x\<bar>\<close>
  or of its inverse.
\<close>

definition exponent :: "real \<Rightarrow> int" where
  "exponent x =
     (if 1 \<le> \<bar>x\<bar> then bitlen \<lfloor>\<bar>x\<bar>\<rfloor> - 1 else - bitlen (\<lceil>1 / \<bar>x\<bar>\<rceil> - 1))"

text \<open>Rounding to the nearest integer, a tie going to the even one.\<close>

definition round_half_even :: "real \<Rightarrow> int" where
  "round_half_even y =
     (let f = \<lfloor>y\<rfloor>; r = y - of_int f
      in if r < 1 / 2 then f
         else if 1 / 2 < r then f + 1
         else if even f then f else f + 1)"

text \<open>
  The double nearest to a real, ties to even (IEEE 754 binary64: 53 significant bits,
  least normal exponent -1022, gradual underflow below it). Above the range of doubles
  the result is at least \<open>2 ^ 1024\<close>; what the program does then is said where the
  rounding is used.
\<close>

definition rd :: "real \<Rightarrow> real" where
  "rd x =
     (if x = 0 then 0
      else let e = max (exponent x) (- 1022);
               ulp = 2 powi (e - 52)
           in of_int (round_half_even (x / ulp)) * ulp)"

text \<open>
  \<open>a / b\<close> on Python integers: the correctly rounded quotient, \<open>ZeroDivisionError\<close>
  for a zero divisor, \<open>OverflowError\<close> when the quotient is too large for a float.
\<close>

definition truediv :: "int \<Rightarrow> int \<Rightarrow> error + real" where
  "truediv a b =
     (if b = 0 then Inl ZeroDivisionError
      else let q = rd (real_of_int a / real_of_int b)
           in if 2 ^ 1024 \<le> \<bar>q\<bar> then Inl OverflowError else Inr q)"

subsection \<open>Stride and levels\<close>

text \<open>
  \<^verbatim>\<open>
  def calculate_ramp_up_step(start_requests, max_requests, duration):
      total_steps = duration // 5
      ramp_up_step = math.ceil((max_requests - start_requests) / total_steps)
      return ramp_up_step
  \<close>
  \<open>//\<close> is floor division, as \<open>div\<close> on \<open>int\<close> is; \<open>/\<close> is the true division of two
  integers into a float; \<open>math.ceil\<close> of a float is the least integer not below it.
\<close>

definition calculate_ramp_up_step :: "int \<Rightarrow> int \<Rightarrow> int \<Rightarrow> error + int" where
  "calculate_ramp_up_step start_requests max_requests duration =
     (let total_steps = duration div 5 in
      case truediv (max_requests - start_requests) total_steps of
        Inl e \<Rightarrow> Inl e
      | Inr ratio \<Rightarrow> Inr \<lceil>ratio\<rceil>)"

text \<open>
  \<open>range(start, stop, step)\<close>: a zero step raises; otherwise the object holds
  \<open>start + i * step\<close> for \<open>i\<close> below its length, which is
  \<open>(stop - start + step - 1) // step\<close> for a positive step and
  \<open>(start - stop - step - 1) // (- step)\<close> for a negative one, and zero when that is
  negative.
\<close>

definition range_len :: "int \<Rightarrow> int \<Rightarrow> int \<Rightarrow> nat" where
  "range_len start stop step =
     (if 0 < step then nat ((stop - start + step - 1) div step)
      else nat ((start - stop - step - 1) div (- step)))"

definition py_range :: "int \<Rightarrow> int \<Rightarrow> int \<Rightarrow> error + int list" where
  "py_range start stop step =
     (if step = 0 then Inl ValueError
      else Inr (map (\<lambda>i. start + int i * step) [0..<range_len start stop step]))"

text \<open>
  The levels \<open>main\<close> iterates over:
  \<^verbatim>\<open>
  ramp_up_step = calculate_ramp_up_step(start_requests, max_requests, duration)
  ...
  for num_requests in range(start_requests, max_requests + 1, ramp_up_step):
  \<close>
\<close>

definition step_plan :: "int \<Rightarrow> int \<Rightarrow> int \<Rightarrow> error + int list" where
  "step_plan start_requests max_requests duration =
     (case calculate_ramp_up_step start_requests max_requests duration of
        Inl e \<Rightarrow> Inl e
      | Inr ramp_up_step \<Rightarrow> py_range start_requests (max_requests + 1) ramp_up_step)"

subsection \<open>One request\<close>

text \<open>
  What the service and the network do to one request is an input of the model. Times are
  nanoseconds of the monotonic clock, counted from the launch of the request's wave:
  \<open>Responded started took status\<close> is a request whose executor reads the clock
  \<open>started\<close> ns after the launch, whose \<open>client.post\<close> returns a response \<open>took\<close> ns
  later, with HTTP status \<open>status\<close>; \<open>Raised fails_after\<close> is a request whose \<open>client.post\<close>
  raises (connection refused, timeout, ...) \<open>fails_after\<close> ns after the launch.
\<close>

datatype outcome = Responded nat nat nat | Raised nat

text \<open>
  \<^verbatim>\<open>
  async def send_request(client, url, payload):
      start_time = perf_counter_ns()
      response = await client.post(url, json=payload)
      end_time = perf_counter_ns()
      process_time_ms = (end_time - start_time) / 1_000_000
      return process_time_ms
  \<close>
  The response is not inspected; an exception of \<open>client.post\<close> is not caught.
\<close>

fun send_request :: "nat \<Rightarrow> outcome \<Rightarrow> error + real" where
  "send_request launch (Responded started took status) =
     (let start_time = launch + started;
          end_time = start_time + took;
          process_time_ms = real (end_time - start_time) / 1000000
      in Inr process_time_ms)"
| "send_request launch (Raised fails_after) = Inl RequestError"

text \<open>When the executor of a request is done, in ns after the launch of its wave.\<close>

fun finished :: "outcome \<Rightarrow> nat" where
  "finished (Responded started took status) = started + took"
| "finished (Raised fails_after) = fails_after"

subsection \<open>One wave\<close>

text \<open>
  \<open>asyncio.gather(*tasks)\<close> with its default \<open>return_exceptions=False\<close>: the results
  of all tasks in the order of the tasks, or the exception of a task that raises.
\<close>

fun gather :: "(error + 'a) list \<Rightarrow> error + 'a list" where
  "gather [] = Inr []"
| "gather (Inl e # tasks) = Inl e"
| "gather (Inr x # tasks) =
     (case gather tasks of Inl e \<Rightarrow> Inl e | Inr xs \<Rightarrow> Inr (x # xs))"

text \<open>
  A wave of the environment: the outcome of its \<open>i\<close>-th request, and the time the event
  loop needs around the barrier before the step runner goes on.
\<close>

record wave =
  replies :: "nat \<Rightarrow> outcome"
  overhead :: nat

text \<open>
  \<^verbatim>\<open>
  tasks = [send_request(client, url, payload) for _ in range(num_requests)]
  response_times = await asyncio.gather(*tasks)
  \<close>
  \<open>range\<close> of a negative number is empty.
\<close>

definition tasks :: "int \<Rightarrow> nat \<Rightarrow> wave \<Rightarrow> (error + real) list" where
  "tasks num_requests launch w =
     map (\<lambda>i. send_request launch (replies w i)) [0..<nat num_requests]"

definition run_wave :: "int \<Rightarrow> nat \<Rightarrow> wave \<Rightarrow> error + real list" where
  "run_wave num_requests launch w = gather (tasks num_requests launch w)"

text \<open>
  The clock when the awaited \<open>gather\<close> hands its results back: every task is done.
\<close>

definition wave_end :: "int \<Rightarrow> nat \<Rightarrow> wave \<Rightarrow> nat" where
  "wave_end num_requests launch w =
     launch + fold max (map (\<lambda>i. finished (replies w i)) [0..<nat num_requests]) 0
       + overhead w"

subsection \<open>One step\<close>

text \<open>
  The world is the reading of the monotonic clock and the waves still to come. Time
  passes only while the program awaits: two reads of the clock with no \<open>await\<close>
  between them give the same value. A script that ends while the loop still asks for a
  wave gives \<open>None\<close>: the model does not say what the run does then. The clock is
  monotonic, so the difference of two readings is never negative.
  \<^verbatim>\<open>
  async def ramp_up_requests(url, payload, num_requests, duration):
      async with httpx.AsyncClient() as client:
          start_time = perf_counter_ns()
          process_times = []
          while (perf_counter_ns() - start_time) / 1_000_000_000 < duration:
              tasks = [send_request(client, url, payload) for _ in range(num_requests)]
              response_times = await asyncio.gather(*tasks)
              process_times.extend(response_times)
          return process_times
  \<close>
\<close>

type_synonym world = "nat \<times> wave list"

fun while_loop ::
  "int \<Rightarrow> int \<Rightarrow> nat \<Rightarrow> real list \<Rightarrow> nat \<Rightarrow> wave list \<Rightarrow> (error + real list \<times> world) option"
where
  "while_loop num_requests duration start_time process_times now [] =
     (if real (now - start_time) / 1000000000 < real_of_int duration then None
      else Some (Inr (process_times, (now, []))))"
| "while_loop num_requests duration start_time process_times now (w # ws) =
     (if real (now - start_time) / 1000000000 < real_of_int duration then
        (case run_wave num_requests now w of
           Inl e \<Rightarrow> Some (Inl e)
         | Inr response_times \<Rightarrow>
             while_loop num_requests duration start_time (process_times @ response_times)
               (wave_end num_requests now w) ws)
      else Some (Inr (process_times, (now, w # ws))))"

definition ramp_up_requests ::
  "int \<Rightarrow> int \<Rightarrow> world \<Rightarrow> (error + real list \<times> world) option" where
  "ramp_up_requests num_requests duration wd =
     (case wd of (now, ws) \<Rightarrow> while_loop num_requests duration now [] now ws)"

subsection \<open>Statistics\<close>

text \<open>
  \<open>statistics.mean\<close> raises on an empty list; otherwise it adds the sample up exactly, as
  fractions, and converts the exact mean to a float (the mean of doubles lies between
  the least and the greatest of them, so the conversion does not overflow). \<open>max\<close>
  raises \<open>ValueError\<close> on an empty list.
\<close>

definition mean :: "real list \<Rightarrow> error + real" where
  "mean xs = (if xs = [] then Inl StatisticsError
              else Inr (rd (sum_list xs / real (length xs))))"

definition py_max :: "real list \<Rightarrow> error + real" where
  "py_max xs = (case xs of [] \<Rightarrow> Inl ValueError | x # ys \<Rightarrow> Inr (fold max ys x))"

text \<open>
  \<open>np.percentile(a, q)\<close> with its default method, \<open>linear\<close>, as numpy computes it in
  doubles: the quantile is \<open>q / 100\<close>, the virtual index \<open>(n - 1) * quantile\<close>, and the
  result is interpolated between the two neighbouring ranks of the sorted sample by
  \<^verbatim>\<open>
  def _lerp(a, b, t, out=None):
      diff_b_a = subtract(b, a)
      lerp_interpolation = asanyarray(add(a, diff_b_a * t, out=out))
      subtract(b, diff_b_a * (1 - t), out=lerp_interpolation, where=t >= 0.5, ...)
  \<close>
  Latencies are far below the largest double, so no infinity is modelled. There is no
  number for an empty sample or for \<open>q\<close> outside 0 to 100 (\<open>None\<close>).
\<close>

definition lerp :: "real \<Rightarrow> real \<Rightarrow> real \<Rightarrow> real" where
  "lerp a b t =
     (let diff_b_a = rd (b - a)
      in if 1 / 2 \<le> t then rd (b - rd (diff_b_a * rd (1 - t)))
         else rd (a + rd (diff_b_a * t)))"

definition percentile :: "real list \<Rightarrow> real \<Rightarrow> real option" where
  "percentile a q =
     (if a = [] \<or> q < 0 \<or> 100 < q then None
      else let s = sort a;
               n = length a;
               quantile = rd (q / 100);
               virtual_index = rd (real (n - 1) * quantile);
               previous_index = nat \<lfloor>virtual_index\<rfloor>;
               next_index = min (previous_index + 1) (n - 1);
               gamma = rd (virtual_index - real previous_index)
           in Some (lerp (s ! previous_index) (s ! next_index) gamma))"

definition duration_per_step :: int where
  "duration_per_step = 5"

text \<open>
  The series of \<open>save_plots_to_html\<close>:
  \<^verbatim>\<open>
  percentiles = [np.percentile(times, 95) for times in all_process_times]
  max_times = [max(times) for times in all_process_times]
  throughputs = [len(times) / duration_per_step for times in all_process_times]
  \<close>
\<close>

definition percentiles :: "real list list \<Rightarrow> real option list" where
  "percentiles all_process_times = map (\<lambda>times. percentile times 95) all_process_times"

definition max_times :: "real list list \<Rightarrow> (error + real) list" where
  "max_times all_process_times = map py_max all_process_times"

definition throughputs :: "real list list \<Rightarrow> real list" where
  "throughputs all_process_times =
     map (\<lambda>times. rd (real (length times) / real_of_int duration_per_step)) all_process_times"

subsection \<open>The run\<close>

record series =
  average_response_times :: "real list"
  concurrent_users :: "int list"
  all_process_times :: "real list list"

text \<open>
  \<^verbatim>\<open>
  if process_times:
      avg_response_time = statistics.mean(process_times)
      average_response_times.append(avg_response_time)
      concurrent_users.append(num_requests)
      all_process_times.append(process_times)
  \<close>
\<close>

definition record_step :: "series \<Rightarrow> int \<Rightarrow> real list \<Rightarrow> error + series" where
  "record_step sr num_requests process_times =
     (if process_times \<noteq> [] then
        (case mean process_times of
           Inl e \<Rightarrow> Inl e
         | Inr avg_response_time \<Rightarrow>
             Inr (sr\<lparr>average_response_times := average_response_times sr @ [avg_response_time],
                     concurrent_users := concurrent_users sr @ [num_requests],
                     all_process_times := all_process_times sr @ [process_times]\<rparr>))
      else Inr sr)"

text \<open>
  The body of the \<open>for\<close> loop of \<open>main\<close>, over the levels of the range; each step ends
  with \<open>await asyncio.sleep(1)\<close>, one second of the clock.
\<close>

fun for_loop :: "int list \<Rightarrow> series \<Rightarrow> world \<Rightarrow> (error + series \<times> world) option" where
  "for_loop [] sr wd = Some (Inr (sr, wd))"
| "for_loop (num_requests # levels) sr wd =
     (case ramp_up_requests num_requests duration_per_step wd of
        None \<Rightarrow> None
      | Some (Inl e) \<Rightarrow> Some (Inl e)
      | Some (Inr (process_times, (now, ws))) \<Rightarrow>
          (case record_step sr num_requests process_times of
             Inl e \<Rightarrow> Some (Inl e)
           | Inr sr' \<Rightarrow> for_loop levels sr' (now + 1000000000, ws)))"

definition no_series :: series where
  "no_series = \<lparr>average_response_times = [], concurrent_users = [], all_process_times = []\<rparr>"

text \<open>
  \<open>main\<close>, from the parsed arguments to the three lists it hands to
  \<open>save_plots_to_html\<close>.
\<close>

definition main :: "int \<Rightarrow> int \<Rightarrow> int \<Rightarrow> world \<Rightarrow> (error + series \<times> world) option" where
  "main start_requests max_requests duration wd =
     (case step_plan start_requests max_requests duration of
        Inl e \<Rightarrow> Some (Inl e)
      | Inr levels \<Rightarrow> for_loop levels no_series wd)"

subsection \<open>The stride and the percentile as the specification words them\<close>

text \<open>
  The specification's stride: the number of steps is \<open>floor(duration / 5)\<close> with a
  minimum of 1, the stride is the ceiling of the span over the number of steps, with a
  minimum of 1, in exact arithmetic. It is here to be compared with
  \<open>calculate_ramp_up_step\<close>.
\<close>

definition spec_total_steps :: "int \<Rightarrow> int" where
  "spec_total_steps duration = max 1 (duration div 5)"

definition spec_stride :: "int \<Rightarrow> int \<Rightarrow> int \<Rightarrow> int" where
  "spec_stride start_requests max_requests duration =
     max 1 \<lceil>real_of_int (max_requests - start_requests)
               / real_of_int (spec_total_steps duration)\<rceil>"

text \<open>
  The specification's 95th percentile: linear interpolation between the two nearest
  ranks of the sorted sample, in exact arithmetic.
\<close>

definition spec_percentile :: "real list \<Rightarrow> real \<Rightarrow> real option" where
  "spec_percentile a q =
     (if a = [] then None
      else let s = sort a;
               n = length a;
               h = real (n - 1) * (q / 100);
               lo = nat \<lfloor>h\<rfloor>;
               hi = min (lo + 1) (n - 1)
           in Some (s ! lo + (h - real lo) * (s ! hi - s ! lo)))"

subsection \<open>Well-formed series, and environments for the examples\<close>

text \<open>
  What the reporting code relies on: the three lists have one entry per recorded
  step, no recorded sample is empty, and each average is the mean of its sample.
\<close>

definition series_ok :: "series \<Rightarrow> bool" where
  "series_ok sr \<longleftrightarrow>
     length (average_response_times sr) = length (all_process_times sr)
   \<and> length (concurrent_users sr) = length (all_process_times sr)
   \<and> [] \<notin> set (all_process_times sr)
   \<and> map mean (all_process_times sr) = map Inr (average_response_times sr)"

text \<open>
  A wave whose every request is answered after \<open>took\<close> ns with HTTP status \<open>status\<close>;
  a wave whose request number \<open>bad\<close> raises while the others are answered; a wave of
  instant answers around which the event loop spends \<open>ns\<close> ns.
\<close>

definition steady :: "nat \<Rightarrow> nat \<Rightarrow> wave" where
  "steady took status = \<lparr>replies = (\<lambda>i. Responded 0 took status), overhead = 0\<rparr>"

definition failing :: "nat \<Rightarrow> nat \<Rightarrow> wave" where
  "failing bad took =
     \<lparr>replies = (\<lambda>i. if i = bad then Raised took else Responded 0 took 200), overhead = 0\<rparr>"

definition pause :: "nat \<Rightarrow> wave" where
  "pause ns = \<lparr>replies = (\<lambda>i. Responded 0 0 200), overhead = ns\<rparr>"

section \<open>Properties\<close>

subsection \<open>Rounding to doubles\<close>

lemma two_powi_nonneg: "0 \<le> e \<Longrightarrow> (2::real) powi e = 2 ^ nat e"
  by (simp add: power_int_def)

lemma two_powi_neg: "0 \<le> k \<Longrightarrow> (2::real) powi (- k) = 1 / 2 ^ nat k"
  by (simp add: power_int_minus two_powi_nonneg inverse_eq_divide)

lemma exponent_bounds:
  assumes "x \<noteq> 0"
  shows "2 powi exponent x \<le> \<bar>x\<bar> \<and> \<bar>x\<bar> < 2 powi (exponent x + 1)"
proof (cases "1 \<le> \<bar>x\<bar>")
  case True
  define m where "m = \<lfloor>\<bar>x\<bar>\<rfloor>"
  have m: "1 \<le> m" using True by (simp add: m_def le_floor_iff)
  have e: "exponent x = bitlen m - 1" using True by (simp add: exponent_def m_def)
  have b: "2 ^ nat (bitlen m - 1) \<le> m" "m < 2 ^ nat (bitlen m)"
    using bitlen_bounds [of m] m by simp_all
  have pos: "1 \<le> bitlen m"
    using m bitlen_eq_zero_iff [of m] bitlen_nonneg [of m] by linarith
  have "real_of_int (2 ^ nat (bitlen m - 1)) \<le> real_of_int m"
    using b(1) by (simp only: of_int_le_iff)
  then have lo: "2 ^ nat (bitlen m - 1) \<le> real_of_int m" by simp
  have "m + 1 \<le> 2 ^ nat (bitlen m)" using b(2) by simp
  then have "real_of_int (m + 1) \<le> real_of_int (2 ^ nat (bitlen m))"
    by (simp only: of_int_le_iff)
  then have hi: "real_of_int m + 1 \<le> 2 ^ nat (bitlen m)" by simp
  have fl: "real_of_int m \<le> \<bar>x\<bar>" "\<bar>x\<bar> < real_of_int m + 1"
    by (simp_all add: m_def)
  have "(2::real) powi exponent x = 2 ^ nat (bitlen m - 1)"
    using pos e by (simp add: two_powi_nonneg)
  moreover have "2 powi (exponent x + 1) = (2::real) ^ nat (bitlen m)"
    using pos e by (simp add: two_powi_nonneg)
  ultimately show ?thesis using lo hi fl by linarith
next
  case False
  define y where "y = 1 / \<bar>x\<bar>"
  have ax: "0 < \<bar>x\<bar>" "\<bar>x\<bar> < 1" using assms False by simp_all
  have y: "1 < y" using ax by (simp add: y_def)
  define c where "c = \<lceil>y\<rceil> - 1"
  have c: "1 \<le> c" using y by (simp add: c_def less_ceiling_iff)
  have e: "exponent x = - bitlen c" using False by (simp add: exponent_def c_def y_def)
  have b: "2 ^ nat (bitlen c - 1) \<le> c" "c < 2 ^ nat (bitlen c)"
    using bitlen_bounds [of c] c by simp_all
  have pos: "1 \<le> bitlen c"
    using c bitlen_eq_zero_iff [of c] bitlen_nonneg [of c] by linarith
  have "real_of_int (2 ^ nat (bitlen c - 1)) \<le> real_of_int c"
    using b(1) by (simp only: of_int_le_iff)
  then have lo: "2 ^ nat (bitlen c - 1) \<le> real_of_int c" by simp
  have "c + 1 \<le> 2 ^ nat (bitlen c)" using b(2) by simp
  then have "real_of_int (c + 1) \<le> real_of_int (2 ^ nat (bitlen c))"
    by (simp only: of_int_le_iff)
  then have hi: "real_of_int c + 1 \<le> 2 ^ nat (bitlen c)" by simp
  have cl: "real_of_int c < y" "y \<le> real_of_int c + 1"
    unfolding c_def by linarith+
  have y1: "2 ^ nat (bitlen c - 1) < y" using lo cl(1) by linarith
  have y2: "y \<le> 2 ^ nat (bitlen c)" using hi cl(2) by linarith
  have xy: "\<bar>x\<bar> = 1 / y" using ax by (simp add: y_def)
  have "1 / (2::real) ^ nat (bitlen c) \<le> 1 / y"
    using y y2 by (simp add: frac_le)
  moreover have "1 / y < 1 / (2::real) ^ nat (bitlen c - 1)"
    using y1 by (simp add: frac_less2)
  moreover have "(2::real) powi exponent x = 1 / (2::real) ^ nat (bitlen c)"
    using pos e two_powi_neg [of "bitlen c"] by simp
  moreover have "(2::real) powi (exponent x + 1) = 1 / (2::real) ^ nat (bitlen c - 1)"
  proof -
    have "exponent x + 1 = - (bitlen c - 1)" using e by simp
    then show ?thesis using pos two_powi_neg [of "bitlen c - 1"] by simp
  qed
  ultimately show ?thesis using xy by simp
qed

lemma round_half_even_error: "\<bar>real_of_int (round_half_even y) - y\<bar> \<le> 1 / 2"
proof -
  have "real_of_int \<lfloor>y\<rfloor> \<le> y" "y < real_of_int \<lfloor>y\<rfloor> + 1" by linarith+
  then show ?thesis by (auto simp: round_half_even_def Let_def)
qed

lemma round_half_even_of_int: "round_half_even (real_of_int k) = k"
  by (simp add: round_half_even_def)

lemma rd_error:
  assumes "x \<noteq> 0" "- 1022 \<le> exponent x"
  shows "\<bar>rd x - x\<bar> \<le> \<bar>x\<bar> / 2 ^ 53"
proof -
  define e where "e = exponent x"
  define u :: real where "u = 2 powi (e - 52)"
  define m where "m = round_half_even (x / u)"
  have u: "0 < u" by (simp add: u_def)
  have r: "rd x = real_of_int m * u"
    using assms by (simp add: rd_def Let_def e_def u_def m_def max_def)
  have "\<bar>real_of_int m - x / u\<bar> \<le> 1 / 2"
    unfolding m_def by (rule round_half_even_error)
  then have "\<bar>real_of_int m - x / u\<bar> * u \<le> 1 / 2 * u"
    using u by (simp only: mult_right_mono less_imp_le)
  moreover have "\<bar>real_of_int m - x / u\<bar> * u = \<bar>real_of_int m * u - x\<bar>"
  proof -
    have "\<bar>real_of_int m - x / u\<bar> * u = \<bar>(real_of_int m - x / u) * u\<bar>"
      using u by (simp add: abs_mult)
    also have "(real_of_int m - x / u) * u = real_of_int m * u - x"
      using u by (simp add: algebra_simps)
    finally show ?thesis .
  qed
  ultimately have err: "\<bar>rd x - x\<bar> \<le> u / 2" using r by simp
  have "(2::real) powi (e - 52 + 52) = 2 powi (e - 52) * 2 powi 52"
    by (rule power_int_add) simp
  then have "u = 2 powi e / 2 ^ 52" by (simp add: u_def)
  then have "u / 2 = 2 powi e / 2 ^ 53" by simp
  moreover have "2 powi e \<le> \<bar>x\<bar>" using exponent_bounds [OF assms(1)] by (simp add: e_def)
  ultimately have "u / 2 \<le> \<bar>x\<bar> / 2 ^ 53" by (simp add: divide_right_mono)
  then show ?thesis using err by linarith
qed

lemma rd_of_int:
  assumes "\<bar>k\<bar> < 2 ^ 53"
  shows "rd (real_of_int k) = real_of_int k"
proof (cases "k = 0")
  case True
  then show ?thesis by (simp add: rd_def)
next
  case False
  define e where "e = exponent (real_of_int k)"
  have k1: "1 \<le> \<bar>k\<bar>" using False by simp
  then have "1 \<le> \<bar>real_of_int k\<bar>" by linarith
  then have e: "e = bitlen \<bar>k\<bar> - 1"
    by (simp add: e_def exponent_def flip: of_int_abs)
  have "bitlen \<bar>k\<bar> \<le> 53" using assms by (simp add: bitlen_le_iff_power)
  moreover have "1 \<le> bitlen \<bar>k\<bar>"
    using k1 bitlen_eq_zero_iff [of "\<bar>k\<bar>"] bitlen_nonneg [of "\<bar>k\<bar>"] by linarith
  ultimately have er: "0 \<le> e" "e \<le> 52" using e by simp_all
  define n where "n = nat (52 - e)"
  have u: "(2::real) powi (e - 52) = 1 / 2 ^ n"
    using er two_powi_neg [of "52 - e"] by (simp add: n_def)
  have "real_of_int k / (1 / 2 ^ n) = real_of_int (k * 2 ^ n)" by simp
  then have "round_half_even (real_of_int k / (1 / 2 ^ n)) = k * 2 ^ n"
    by (simp only: round_half_even_of_int)
  then have "rd (real_of_int k) = real_of_int (k * 2 ^ n) * (1 / 2 ^ n)"
    using False er u by (simp add: rd_def Let_def e_def [symmetric] max_def)
  then show ?thesis by simp
qed

lemma exponent_normal:
  assumes "1 / 2 ^ 1022 < \<bar>x\<bar>"
  shows "- 1022 \<le> exponent x"
proof (rule ccontr)
  assume "\<not> - 1022 \<le> exponent x"
  then have "exponent x + 1 \<le> - 1022" by simp
  then have "(2::real) powi (exponent x + 1) \<le> 2 powi (- 1022)"
    by (intro power_int_increasing) simp_all
  moreover have "(2::real) powi (- 1022) = 1 / 2 ^ 1022"
    using two_powi_neg [of 1022] by simp
  moreover have "x \<noteq> 0" using assms by auto
  then have "\<bar>x\<bar> < 2 powi (exponent x + 1)" using exponent_bounds by blast
  ultimately show False using assms by linarith
qed

lemma truediv_ceiling:
  assumes "b \<noteq> 0" "\<bar>a\<bar> < 2 ^ 53" "\<bar>b\<bar> < 2 ^ 1022"
  shows "\<exists>q. truediv a b = Inr q \<and> \<lceil>q\<rceil> = \<lceil>real_of_int a / real_of_int b\<rceil>"
proof (cases "b dvd a")
  case True
  then obtain c where c: "a = b * c" by (auto simp: dvd_def)
  have x: "real_of_int a / real_of_int b = real_of_int c" using assms(1) c by simp
  have "1 \<le> \<bar>b\<bar>" using assms(1) by linarith
  then have "1 * \<bar>c\<bar> \<le> \<bar>b\<bar> * \<bar>c\<bar>" by (intro mult_right_mono) simp_all
  then have "\<bar>c\<bar> \<le> \<bar>b\<bar> * \<bar>c\<bar>" by simp
  then have cb: "\<bar>c\<bar> < 2 ^ 53" using assms(2) c by (simp add: abs_mult)
  then have r: "rd (real_of_int c) = real_of_int c" by (rule rd_of_int)
  have "real_of_int \<bar>c\<bar> < real_of_int (2 ^ 53)" using cb by (simp only: of_int_less_iff)
  then have "\<bar>real_of_int c\<bar> < 2 ^ 1024" by simp
  then have "truediv a b = Inr (real_of_int c)"
    using assms(1) r x by (simp add: truediv_def Let_def)
  then show ?thesis using x by simp
next
  case False
  define x where "x = real_of_int a / real_of_int b"
  define B where "B = \<bar>b\<bar>"
  define A where "A = a * sgn b"
  define n where "n = \<lceil>x\<rceil>"
  have B: "0 < B" using assms(1) by (simp add: B_def)
  have a0: "a \<noteq> 0" using False by auto
  have xAB: "x = real_of_int A / real_of_int B"
    using assms(1) by (cases "0 < b") (simp_all add: x_def A_def B_def sgn_if)
  have A: "\<bar>A\<bar> = \<bar>a\<bar>" using assms(1) by (simp add: A_def abs_mult sgn_if)
  have xB: "x * real_of_int B = real_of_int A" using B by (simp add: xAB)
  have nd: "\<not> B dvd A" using False assms(1) by (simp add: A_def B_def sgn_if)
  have n1: "real_of_int n - 1 < x" "x \<le> real_of_int n" unfolding n_def by linarith+
  have "(real_of_int n - 1) * real_of_int B < x * real_of_int B"
    using n1(1) B by (simp only: mult_strict_right_mono of_int_0_less_iff)
  then have "real_of_int ((n - 1) * B) < real_of_int A" using xB by simp
  then have "(n - 1) * B < A" by (simp only: of_int_less_iff)
  then have "(n - 1) * B + 1 \<le> A" by simp
  then have "real_of_int ((n - 1) * B + 1) \<le> real_of_int A" by (simp only: of_int_le_iff)
  then have "(real_of_int n - 1) * real_of_int B + 1 \<le> x * real_of_int B" using xB by simp
  then have "((real_of_int n - 1) * real_of_int B + 1) / real_of_int B
               \<le> x * real_of_int B / real_of_int B"
    using B by (simp only: divide_right_mono of_int_0_le_iff less_imp_le)
  then have lo: "real_of_int n - 1 + 1 / real_of_int B \<le> x"
    using B by (simp add: add_divide_distrib)
  have "x * real_of_int B \<le> real_of_int n * real_of_int B"
    using n1(2) B by (simp only: mult_right_mono of_int_0_le_iff less_imp_le)
  then have "real_of_int A \<le> real_of_int (n * B)" using xB by simp
  then have "A \<le> n * B" by (simp only: of_int_le_iff)
  moreover have "A \<noteq> n * B" using nd by auto
  ultimately have "A + 1 \<le> n * B" by simp
  then have "real_of_int (A + 1) \<le> real_of_int (n * B)" by (simp only: of_int_le_iff)
  then have "x * real_of_int B + 1 \<le> real_of_int n * real_of_int B" using xB by simp
  then have "(x * real_of_int B + 1) / real_of_int B
               \<le> real_of_int n * real_of_int B / real_of_int B"
    using B by (simp only: divide_right_mono of_int_0_le_iff less_imp_le)
  then have hi: "x + 1 / real_of_int B \<le> real_of_int n"
    using B by (simp add: add_divide_distrib)
  have ax: "\<bar>x\<bar> = real_of_int \<bar>a\<bar> / real_of_int B"
    using B A by (simp add: xAB flip: A)
  have a1: "1 \<le> \<bar>a\<bar>" using a0 by simp
  have Bb: "real_of_int B < 2 ^ 1022"
  proof -
    have "real_of_int B < real_of_int (2 ^ 1022)"
      using assms(3) unfolding B_def by (simp only: of_int_less_iff)
    then show ?thesis by simp
  qed
  have "1 / 2 ^ 1022 < 1 / real_of_int B" using B Bb by (simp add: frac_less2)
  also have "\<dots> \<le> real_of_int \<bar>a\<bar> / real_of_int B"
    using a1 B by (simp add: divide_right_mono)
  finally have big: "1 / 2 ^ 1022 < \<bar>x\<bar>" using ax by simp
  then have x0: "x \<noteq> 0" by auto
  have "\<bar>rd x - x\<bar> \<le> \<bar>x\<bar> / 2 ^ 53"
    using rd_error [OF x0 exponent_normal [OF big]] .
  moreover have "\<bar>x\<bar> / 2 ^ 53 < 1 / real_of_int B"
  proof -
    have "real_of_int \<bar>a\<bar> < real_of_int (2 ^ 53)"
      using assms(2) by (simp only: of_int_less_iff)
    then have "real_of_int \<bar>a\<bar> / 2 ^ 53 < 1" by simp
    then have "real_of_int \<bar>a\<bar> / 2 ^ 53 / real_of_int B < 1 / real_of_int B"
      using B by (simp only: divide_strict_right_mono of_int_0_less_iff)
    then show ?thesis by (simp add: ax)
  qed
  ultimately have err: "\<bar>rd x - x\<bar> < 1 / real_of_int B" by linarith
  have r1: "real_of_int n - 1 < rd x" using err lo by linarith
  have r2: "rd x < real_of_int n" using err hi by linarith
  have c: "\<lceil>rd x\<rceil> = n" using r1 r2 by (intro ceiling_unique) simp_all
  have "\<bar>x\<bar> < 2 ^ 53"
  proof -
    have "real_of_int \<bar>a\<bar> < real_of_int (2 ^ 53)"
      using assms(2) by (simp only: of_int_less_iff)
    moreover have "real_of_int \<bar>a\<bar> / real_of_int B \<le> real_of_int \<bar>a\<bar>"
      using B by (simp add: divide_le_eq mult_le_cancel_left1)
    ultimately show ?thesis using ax by simp
  qed
  then have "\<bar>rd x\<bar> < 2 ^ 53 + 1" using n1 r1 r2 by linarith
  moreover have "(2::real) ^ 53 + 1 \<le> 2 ^ 1024" by simp
  ultimately have "\<not> 2 ^ 1024 \<le> \<bar>rd x\<bar>" by linarith
  then have "truediv a b = Inr (rd x)"
    using assms(1) by (simp add: truediv_def Let_def x_def)
  then show ?thesis using c by (simp add: n_def x_def)
qed

lemma calculate_ramp_up_step_exact:
  assumes "duration div 5 \<noteq> 0" "\<bar>max_requests - start_requests\<bar> < 2 ^ 53"
    "\<bar>duration div 5\<bar> < 2 ^ 1022"
  shows "calculate_ramp_up_step start_requests max_requests duration
           = Inr \<lceil>real_of_int (max_requests - start_requests) / real_of_int (duration div 5)\<rceil>"
  using truediv_ceiling [OF assms] by (auto simp: calculate_ramp_up_step_def Let_def)

lemma calculate_ramp_up_step_zero:
  assumes "duration div 5 = 0"
  shows "calculate_ramp_up_step start_requests max_requests duration = Inl ZeroDivisionError"
  using assms by (simp add: calculate_ramp_up_step_def truediv_def)

lemma div5_bound:
  assumes "\<bar>duration :: int\<bar> < 2 ^ 53"
  shows "\<bar>duration div 5\<bar> < 2 ^ 1022"
proof -
  have "\<bar>duration div 5\<bar> \<le> \<bar>duration\<bar>" by linarith
  moreover have "(2::int) ^ 53 \<le> 2 ^ 1022" by simp
  ultimately show ?thesis using assms by linarith
qed


subsection \<open>The levels of a run\<close>

lemma stride_pos:
  assumes "start_requests < max_requests" "max_requests - start_requests < 2 ^ 53"
    "5 \<le> duration" "duration < 2 ^ 53"
  shows "calculate_ramp_up_step start_requests max_requests duration
           = Inr \<lceil>real_of_int (max_requests - start_requests) / real_of_int (duration div 5)\<rceil>
         \<and> 1 \<le> \<lceil>real_of_int (max_requests - start_requests) / real_of_int (duration div 5)\<rceil>"
proof -
  have t: "1 \<le> duration div 5" using assms(3) by simp
  have "\<bar>duration\<bar> < 2 ^ 53" using assms(3,4) by simp
  then have b: "\<bar>duration div 5\<bar> < 2 ^ 1022" by (rule div5_bound)
  have a: "\<bar>max_requests - start_requests\<bar> < 2 ^ 53" using assms(1,2) by simp
  have "0 < real_of_int (max_requests - start_requests) / real_of_int (duration div 5)"
    using assms(1) t by simp
  then have "1 \<le> \<lceil>real_of_int (max_requests - start_requests) / real_of_int (duration div 5)\<rceil>"
    by linarith
  then show ?thesis using calculate_ramp_up_step_exact [OF _ a b] t by simp
qed

lemma range_len_pos:
  assumes "0 < step" "start < stop"
  shows "range_len start stop step = Suc (nat ((stop - start - 1) div step))"
proof -
  have "stop - start + step - 1 = (stop - start - 1) + step" by simp
  then have "(stop - start + step - 1) div step = (stop - start - 1) div step + 1"
    using assms(1) by (simp only: div_add_self2 [of step "stop - start - 1"])
  moreover have "0 \<le> (stop - start - 1) div step"
    using assms by (simp add: pos_imp_zdiv_nonneg_iff)
  ultimately show ?thesis using assms(1) by (simp add: range_len_def nat_add_distrib)
qed

lemma py_range_pos:
  assumes "0 < step" "start < stop"
  defines "levels \<equiv> map (\<lambda>i. start + int i * step) [0..<Suc (nat ((stop - start - 1) div step))]"
  shows "py_range start stop step = Inr levels
         \<and> levels \<noteq> [] \<and> hd levels = start \<and> sorted_wrt (<) levels
         \<and> last levels = start + (stop - start - 1) div step * step
         \<and> last levels < stop \<and> stop \<le> last levels + step"
proof -
  define k where "k = nat ((stop - start - 1) div step)"
  have lv: "levels = map (\<lambda>i. start + int i * step) [0..<Suc k]"
    by (simp add: levels_def k_def)
  have r: "py_range start stop step = Inr levels"
    using assms(1) range_len_pos [OF assms(1,2)] by (simp add: py_range_def levels_def)
  have ne: "levels \<noteq> []" using lv by simp
  have h: "hd levels = start" unfolding lv by (simp add: upt_conv_Cons del: upt_Suc)
  have s: "sorted_wrt (<) levels"
    unfolding lv using assms(1) by (simp add: sorted_wrt_map sorted_wrt_upt del: upt_Suc)
  have l0: "last levels = start + int k * step"
    unfolding lv by (simp add: last_map)
  have q: "0 \<le> (stop - start - 1) div step"
    using assms by (simp add: pos_imp_zdiv_nonneg_iff)
  then have ik: "int k = (stop - start - 1) div step" by (simp add: k_def)
  have l: "last levels = start + (stop - start - 1) div step * step"
    using l0 ik by simp
  have m: "(stop - start - 1) div step * step + (stop - start - 1) mod step = stop - start - 1"
    by simp
  have rr: "0 \<le> (stop - start - 1) mod step" "(stop - start - 1) mod step < step"
    using assms(1) by simp_all
  have "last levels < stop" using l m rr by linarith
  moreover have "stop \<le> last levels + step" using l m rr by linarith
  ultimately show ?thesis using r ne h s l by simp
qed


text \<open>
  C1 (as amended). For every configuration with \<open>start_requests < max_requests\<close>, a
  duration of at least 5 seconds, and a span and a duration below \<open>2 ^ 53\<close>: the stride
  is the ceiling of the span over \<open>floor(duration / 5)\<close>, the levels of the run are
  \<open>start_requests\<close>, \<open>start_requests + stride\<close>, ... as long as they do not pass
  \<open>max_requests\<close>. So they are strictly increasing, the first is \<open>start_requests\<close>, and
  the last is at most \<open>max_requests\<close> and less than one stride below it; it is
  \<open>max_requests\<close> exactly when the stride divides the span.
\<close>

theorem step_plan_increasing_within_max:
  assumes "start_requests < max_requests" "max_requests - start_requests < 2 ^ 53"
    "5 \<le> duration" "duration < 2 ^ 53"
  shows "\<exists>stride levels.
           stride = \<lceil>real_of_int (max_requests - start_requests)
                      / real_of_int (duration div 5)\<rceil>
         \<and> 1 \<le> stride
         \<and> calculate_ramp_up_step start_requests max_requests duration = Inr stride
         \<and> levels = map (\<lambda>i. start_requests + int i * stride)
                       [0..<Suc (nat ((max_requests - start_requests) div stride))]
         \<and> step_plan start_requests max_requests duration = Inr levels
         \<and> levels \<noteq> [] \<and> sorted_wrt (<) levels \<and> hd levels = start_requests
         \<and> last levels = start_requests + (max_requests - start_requests) div stride * stride
         \<and> last levels \<le> max_requests \<and> max_requests < last levels + stride
         \<and> (last levels = max_requests \<longleftrightarrow> stride dvd (max_requests - start_requests))"
proof -
  define stride where
    "stride = \<lceil>real_of_int (max_requests - start_requests) / real_of_int (duration div 5)\<rceil>"
  define levels where
    "levels = map (\<lambda>i. start_requests + int i * stride)
                [0..<Suc (nat ((max_requests + 1 - start_requests - 1) div stride))]"
  have c: "calculate_ramp_up_step start_requests max_requests duration = Inr stride"
    and p: "1 \<le> stride"
    using stride_pos [OF assms] by (simp_all add: stride_def)
  have r: "py_range start_requests (max_requests + 1) stride = Inr levels
         \<and> levels \<noteq> [] \<and> hd levels = start_requests \<and> sorted_wrt (<) levels
         \<and> last levels = start_requests + (max_requests + 1 - start_requests - 1) div stride * stride
         \<and> last levels < max_requests + 1 \<and> max_requests + 1 \<le> last levels + stride"
    unfolding levels_def using p assms(1) by (intro py_range_pos) simp_all
  have sp: "step_plan start_requests max_requests duration = Inr levels"
    using c r by (simp add: step_plan_def)
  have l: "last levels = start_requests + (max_requests - start_requests) div stride * stride"
    using r by simp
  have d: "last levels = max_requests \<longleftrightarrow> stride dvd (max_requests - start_requests)"
  proof -
    have "last levels = max_requests
            \<longleftrightarrow> (max_requests - start_requests) div stride * stride = max_requests - start_requests"
      using l by auto
    also have "\<dots> \<longleftrightarrow> (max_requests - start_requests) mod stride = 0"
      using div_mult_mod_eq [of "max_requests - start_requests" stride] by linarith
    also have "\<dots> \<longleftrightarrow> stride dvd (max_requests - start_requests)"
      by (simp add: dvd_eq_mod_eq_0)
    finally show ?thesis .
  qed
  have "levels = map (\<lambda>i. start_requests + int i * stride)
                       [0..<Suc (nat ((max_requests - start_requests) div stride))]"
    by (simp add: levels_def)
  then show ?thesis using c p sp r l d stride_def by (intro exI [of _ stride] exI [of _ levels]) simp
qed

theorem step_plan_increasing_within_max_witness:
  "(1::int) < 10 \<and> (10::int) - 1 < 2 ^ 53 \<and> (5::int) \<le> 10 \<and> (10::int) < 2 ^ 53
   \<and> calculate_ramp_up_step 1 10 10 = Inr 5 \<and> step_plan 1 10 10 = Inr [1, 6]
   \<and> \<not> (5::int) dvd (10 - 1)"
  using step_plan_increasing_within_max [of 1 10 10]
  by (auto simp: upt_conv_Cons)

text \<open>
  C1 as stated fails: from 1 to 10 in 10 seconds the stride is 5 and the levels are
  1 and 6, so the last level stays below \<open>max_requests\<close>. A run from 1 to 1 has stride 0,
  which \<open>range\<close> refuses, and a run of 3 seconds has no step to divide by.
\<close>

theorem step_plan_final_level_counterexample:
  "step_plan 1 10 10 = Inr [1, 6] \<and> \<not> (10 \<le> last [1, 6 :: int])
   \<and> step_plan 1 1 5 = Inl ValueError
   \<and> step_plan 1 10 3 = Inl ZeroDivisionError"
  using calculate_ramp_up_step_exact [of 10 10 1] calculate_ramp_up_step_exact [of 5 1 1]
    calculate_ramp_up_step_zero [of 3 1 10]
  by (simp add: step_plan_def py_range_def range_len_def upt_conv_Cons)

text \<open>
  C2 (as amended). For \<open>start_requests < max_requests\<close>, a duration of at least
  5 seconds, and a span and a duration below \<open>2 ^ 53\<close>, the stride of
  \<open>calculate_ramp_up_step\<close> is the specification's stride, the ceiling of the span over
  \<open>floor(duration / 5)\<close>, and it is at least 1.
\<close>

theorem calculate_ramp_up_step_is_spec_stride:
  assumes "start_requests < max_requests" "max_requests - start_requests < 2 ^ 53"
    "5 \<le> duration" "duration < 2 ^ 53"
  shows "calculate_ramp_up_step start_requests max_requests duration
           = Inr (spec_stride start_requests max_requests duration)
         \<and> spec_stride start_requests max_requests duration
           = \<lceil>real_of_int (max_requests - start_requests) / real_of_int (duration div 5)\<rceil>
         \<and> 1 \<le> \<lceil>real_of_int (max_requests - start_requests) / real_of_int (duration div 5)\<rceil>"
proof -
  have t: "1 \<le> duration div 5" using assms(3) by simp
  define stride where
    "stride = \<lceil>real_of_int (max_requests - start_requests) / real_of_int (duration div 5)\<rceil>"
  have c: "calculate_ramp_up_step start_requests max_requests duration = Inr stride"
    and p: "1 \<le> stride"
    using stride_pos [OF assms] by (simp_all add: stride_def)
  have "spec_total_steps duration = duration div 5"
    using t by (simp add: spec_total_steps_def)
  then have "spec_stride start_requests max_requests duration = stride"
    using p by (simp add: spec_stride_def stride_def)
  then show ?thesis using c p by (simp add: stride_def)
qed

theorem calculate_ramp_up_step_is_spec_stride_witness:
  "(1::int) < 10 \<and> (10::int) - 1 < 2 ^ 53 \<and> (5::int) \<le> 20 \<and> (20::int) < 2 ^ 53
   \<and> calculate_ramp_up_step 1 10 20 = Inr 3 \<and> spec_stride 1 10 20 = 3"
  using calculate_ramp_up_step_is_spec_stride [of 1 10 20]
  by (simp add: spec_stride_def spec_total_steps_def)

lemma rounded_stride: "calculate_ramp_up_step 0 (2 ^ 53 + 1) 5 = Inr (2 ^ 53)"
  by code_simp

text \<open>
  C2 as stated fails: no minimum of 1 is taken. With a duration of 3 seconds the number
  of steps is 0 and the division raises, where the specification's stride is 9; with
  \<open>start_requests = max_requests\<close> the stride is 0, where the specification's is 1. And
  the quotient is a double: for a span of \<open>2 ^ 53 + 1\<close> over one step it is rounded to
  \<open>2 ^ 53\<close>, one below the ceiling.
\<close>

theorem calculate_ramp_up_step_minimum_counterexample:
  "calculate_ramp_up_step 1 10 3 = Inl ZeroDivisionError \<and> spec_stride 1 10 3 = 9
   \<and> calculate_ramp_up_step 1 1 5 = Inr 0 \<and> spec_stride 1 1 5 = 1
   \<and> calculate_ramp_up_step 0 (2 ^ 53 + 1) 5 = Inr (2 ^ 53)
   \<and> spec_stride 0 (2 ^ 53 + 1) 5 = 2 ^ 53 + 1"
  using calculate_ramp_up_step_exact [of 5 1 1] calculate_ramp_up_step_zero [of 3 1 10]
    rounded_stride
  by (simp add: spec_stride_def spec_total_steps_def)

subsection \<open>Statistics of a step\<close>

lemma percentile_fixed_sample:
  "percentile [10, 20, 30, 40, 100] 95 = Some (88 - 1 / 2 ^ 46)"
  by code_simp

lemma rd_40: "rd 40 = 40"
  using rd_of_int [of 40] by simp

lemma rd_1: "rd 1 = 1"
  using rd_of_int [of 1] by simp

text \<open>
  C5 (as amended). On the sample 10, 20, 30, 40, 100 ms the mean is 40, the maximum is
  100, the throughput over the nominal window of 5 seconds is 1 request per second, and
  the 95th percentile is \<open>88 - 2 ^ -46\<close>, the double next below 88 (printed
  87.99999999999999): the linear interpolation, whose exact value is 88, is computed in
  doubles.
\<close>

theorem statistics_of_fixed_sample:
  "mean [10, 20, 30, 40, 100] = Inr 40
   \<and> max_times [[10, 20, 30, 40, 100]] = [Inr 100]
   \<and> throughputs [[10, 20, 30, 40, 100]] = [1]
   \<and> percentiles [[10, 20, 30, 40, 100]] = [Some (88 - 1 / 2 ^ 46)]
   \<and> spec_percentile [10, 20, 30, 40, 100] 95 = Some 88"
  using percentile_fixed_sample rd_40 rd_1
  by (simp add: mean_def percentiles_def max_times_def py_max_def throughputs_def
      duration_per_step_def spec_percentile_def Let_def)

text \<open>
  C5 as stated fails in its 95th percentile: the code's value on the sample is not 88.
\<close>

theorem percentile_of_fixed_sample_counterexample:
  "percentile [10, 20, 30, 40, 100] 95 = Some (88 - 1 / 2 ^ 46)
   \<and> percentile [10, 20, 30, 40, 100] 95 \<noteq> Some 88"
  using percentile_fixed_sample by simp

subsection \<open>One wave\<close>

lemma gather_Inr_length: "gather ts = Inr xs \<Longrightarrow> length xs = length ts"
proof (induction ts arbitrary: xs rule: gather.induct)
  case 1
  then show ?case by simp
next
  case (2 e tasks)
  then show ?case by simp
next
  case (3 x tasks)
  then show ?case by (auto split: sum.splits)
qed

lemma gather_Inr_nth: "gather ts = Inr xs \<Longrightarrow> i < length ts \<Longrightarrow> ts ! i = Inr (xs ! i)"
proof (induction ts arbitrary: xs i rule: gather.induct)
  case 1
  then show ?case by simp
next
  case (2 e tasks)
  then show ?case by simp
next
  case (3 x tasks)
  then show ?case by (cases i) (auto split: sum.splits)
qed

lemma gather_all_Inr: "\<forall>t \<in> set ts. \<exists>x. t = Inr x \<Longrightarrow> \<exists>xs. gather ts = Inr xs"
proof (induction ts rule: gather.induct)
  case 1
  then show ?case by simp
next
  case (2 e tasks)
  then show ?case by simp
next
  case (3 x tasks)
  then show ?case by (auto split: sum.splits)
qed

lemma gather_Inl: "Inl e \<in> set ts \<Longrightarrow> \<forall>t \<in> set ts. t = Inl e \<or> (\<exists>x. t = Inr x) \<Longrightarrow> gather ts = Inl e"
proof (induction ts rule: gather.induct)
  case 1
  then show ?case by simp
next
  case (2 e' tasks)
  then show ?case by auto
next
  case (3 x tasks)
  then show ?case by (auto split: sum.splits)
qed

lemma send_request_Responded:
  "send_request launch (Responded s t c) = Inr (real t / 1000000)"
  by (simp add: Let_def)

lemma send_request_cases:
  "send_request launch r = Inl RequestError \<or> (\<exists>x. send_request launch r = Inr x)"
proof (cases r)
  case (Responded s t c)
  then show ?thesis using send_request_Responded [of launch s t c] by blast
next
  case (Raised a)
  then show ?thesis by simp
qed

lemma tasks_length: "length (tasks n launch w) = nat n"
  by (simp add: tasks_def)

lemma run_wave_length: "run_wave n launch w = Inr ts \<Longrightarrow> length ts = nat n"
  using gather_Inr_length [of "tasks n launch w" ts] by (simp add: run_wave_def tasks_length)

lemma run_wave_nth:
  "run_wave n launch w = Inr ts \<Longrightarrow> i < nat n \<Longrightarrow> send_request launch (replies w i) = Inr (ts ! i)"
  using gather_Inr_nth [of "tasks n launch w" ts i] by (simp add: run_wave_def tasks_def)

lemma run_wave_responded:
  assumes "\<forall>i<nat n. \<exists>s t c. replies w i = Responded s t c"
  shows "\<exists>ts. run_wave n launch w = Inr ts"
proof -
  have "\<exists>x. send_request launch (replies w i) = Inr x" if lt: "i < nat n" for i
  proof -
    obtain s t c where "replies w i = Responded s t c" using assms lt by blast
    then show ?thesis using send_request_Responded [of launch s t c] by metis
  qed
  then have "\<forall>t \<in> set (tasks n launch w). \<exists>x. t = Inr x"
    by (auto simp: tasks_def)
  then show ?thesis unfolding run_wave_def by (rule gather_all_Inr)
qed

lemma run_wave_raised:
  assumes "i < nat n" "replies w i = Raised a"
  shows "run_wave n launch w = Inl RequestError"
proof -
  have "Inl RequestError \<in> set (tasks n launch w)"
    using assms by (force simp: tasks_def image_iff)
  moreover have "\<forall>t \<in> set (tasks n launch w). t = Inl RequestError \<or> (\<exists>x. t = Inr x)"
    using send_request_cases by (auto simp: tasks_def)
  ultimately show ?thesis unfolding run_wave_def by (rule gather_Inl)
qed

lemma fold_max_ge_init: "(a::nat) \<le> fold max xs a"
  by (induction xs arbitrary: a) (auto intro: order_trans [OF max.cobounded2])

lemma fold_max_ge_elem: "x \<in> set xs \<Longrightarrow> (x::nat) \<le> fold max xs a"
proof (induction xs arbitrary: a)
  case Nil
  then show ?case by simp
next
  case (Cons y ys)
  show ?case
  proof (cases "x = y")
    case True
    have "x \<le> max y a" using True by simp
    also have "\<dots> \<le> fold max ys (max y a)" by (rule fold_max_ge_init)
    finally show ?thesis by simp
  next
    case False
    then show ?thesis using Cons by simp
  qed
qed

lemma wave_end_after_request:
  assumes "i < nat n"
  shows "launch + finished (replies w i) \<le> wave_end n launch w"
proof -
  have "finished (replies w i) \<in> set (map (\<lambda>i. finished (replies w i)) [0..<nat n])"
    using assms by simp
  then have "finished (replies w i)
               \<le> fold max (map (\<lambda>i. finished (replies w i)) [0..<nat n]) 0"
    by (rule fold_max_ge_elem)
  then show ?thesis by (simp add: wave_end_def)
qed

text \<open>
  C8 (as amended). For every concurrency level, one wave dispatch launches exactly
  that many request executors. If every one of them gets a response, the dispatch returns
  exactly that many latencies, in launch order, each the latency its executor measured;
  if one of them raises, the dispatch returns no list: the exception is what comes out
  of it. The barrier is passed only when every executor is done.
\<close>

theorem wave_returns_all_or_raises:
  "length (tasks n launch w) = nat n
   \<and> ((\<forall>i<nat n. \<exists>s t c. replies w i = Responded s t c) \<longrightarrow>
        (\<exists>ts. run_wave n launch w = Inr ts \<and> length ts = nat n
           \<and> (\<forall>i<nat n. send_request launch (replies w i) = Inr (ts ! i))))
   \<and> ((\<exists>i<nat n. \<exists>a. replies w i = Raised a) \<longrightarrow> run_wave n launch w = Inl RequestError)
   \<and> (\<forall>i<nat n. launch + finished (replies w i) \<le> wave_end n launch w)"
proof -
  have a: "\<exists>ts. run_wave n launch w = Inr ts \<and> length ts = nat n
           \<and> (\<forall>i<nat n. send_request launch (replies w i) = Inr (ts ! i))"
    if ok: "\<forall>i<nat n. \<exists>s t c. replies w i = Responded s t c"
  proof -
    obtain ts where ts: "run_wave n launch w = Inr ts"
      using run_wave_responded [OF ok] by blast
    then show ?thesis using run_wave_length [OF ts] run_wave_nth [OF ts] by blast
  qed
  have b: "run_wave n launch w = Inl RequestError"
    if bad: "\<exists>i<nat n. \<exists>a. replies w i = Raised a"
    using bad run_wave_raised by blast
  show ?thesis using a b tasks_length wave_end_after_request by blast
qed


theorem wave_returns_all_or_raises_witness:
  "replies \<lparr>replies = (\<lambda>i. Responded 0 (2000000 + i) 200), overhead = 0\<rparr> 0
     = Responded 0 2000000 200
   \<and> replies \<lparr>replies = (\<lambda>i. Responded 0 (2000000 + i) 200), overhead = 0\<rparr> 1
     = Responded 0 2000001 200
   \<and> run_wave 2 0 \<lparr>replies = (\<lambda>i. Responded 0 (2000000 + i) 200), overhead = 0\<rparr>
     = Inr [2, 2000001 / 1000000]
   \<and> run_wave 2 0 \<lparr>replies = (\<lambda>i. if i = 0 then Responded 0 2000000 200 else Raised 1000000), overhead = 0\<rparr>
       = Inl RequestError
   \<and> 0 + finished (Responded 0 2000001 200)
       \<le> wave_end 2 0 \<lparr>replies = (\<lambda>i. Responded 0 (2000000 + i) 200), overhead = 0\<rparr>"
  using wave_returns_all_or_raises [of 2 0 "\<lparr>replies = (\<lambda>i. Responded 0 (2000000 + i) 200), overhead = 0\<rparr>"]
    wave_returns_all_or_raises [of 2 0 "\<lparr>replies = (\<lambda>i. if i = 0 then Responded 0 2000000 200 else Raised 1000000), overhead = 0\<rparr>"]
  by (simp add: run_wave_def tasks_def wave_end_def upt_conv_Cons)

text \<open>
  C8 as stated fails: in a wave of two requests of which the second raises, the tasks
  are one latency and one exception, and the dispatch returns no list of length two.
\<close>

theorem wave_with_raise_counterexample:
  "run_wave 2 0 (failing 1 3000000) = Inl RequestError
   \<and> tasks 2 0 (failing 1 3000000) = [Inr 3, Inl RequestError]"
  by (simp add: run_wave_def tasks_def failing_def upt_conv_Cons)


subsection \<open>One step\<close>

lemma while_loop_Inr:
  assumes "while_loop n d st acc now ws = Some (Inr (pts, (now', ws')))"
  shows "\<exists>k rs. k \<le> length ws \<and> ws' = drop k ws \<and> length rs = k \<and> pts = acc @ concat rs
           \<and> (\<forall>j<k. run_wave n (fold (\<lambda>w t. wave_end n t w) (take j ws) now) (ws ! j)
                        = Inr (rs ! j))
           \<and> now' = fold (\<lambda>w t. wave_end n t w) (take k ws) now
           \<and> real_of_int d \<le> real (now' - st) / 1000000000
           \<and> (\<forall>j<k. real (fold (\<lambda>w t. wave_end n t w) (take j ws) now - st) / 1000000000
                        < real_of_int d)"
  using assms
proof (induction ws arbitrary: acc now)
  case Nil
  then have "pts = acc" "now' = now" "ws' = []"
    "real_of_int d \<le> real (now - st) / 1000000000"
    by (auto split: if_splits)
  then show ?case by simp
next
  case (Cons w ws)
  show ?case
  proof (cases "real (now - st) / 1000000000 < real_of_int d")
    case False
    then have "pts = acc" "now' = now" "ws' = w # ws"
      using Cons.prems by auto
    then have "0 \<le> length (w # ws) \<and> ws' = drop 0 (w # ws) \<and> length ([]::real list list) = 0
           \<and> pts = acc @ concat []
           \<and> (\<forall>j<0::nat. run_wave n (fold (\<lambda>w t. wave_end n t w) (take j (w # ws)) now) ((w # ws) ! j)
                        = Inr ([] ! j))
           \<and> now' = fold (\<lambda>w t. wave_end n t w) (take 0 (w # ws)) now
           \<and> real_of_int d \<le> real (now' - st) / 1000000000
           \<and> (\<forall>j<0::nat. real (fold (\<lambda>w t. wave_end n t w) (take j (w # ws)) now - st)
                          / 1000000000 < real_of_int d)"
      using False by simp
    then show ?thesis by blast
  next
    case True
    then obtain r where r: "run_wave n now w = Inr r"
      and rec: "while_loop n d st (acc @ r) (wave_end n now w) ws = Some (Inr (pts, (now', ws')))"
      using Cons.prems by (auto split: sum.splits)
    from Cons.IH [OF rec] obtain k rs where
      k: "k \<le> length ws" "ws' = drop k ws" "length rs = k" "pts = (acc @ r) @ concat rs"
      and runs: "\<forall>j<k. run_wave n (fold (\<lambda>w t. wave_end n t w) (take j ws) (wave_end n now w)) (ws ! j)
                        = Inr (rs ! j)"
      and t: "now' = fold (\<lambda>w t. wave_end n t w) (take k ws) (wave_end n now w)"
        "real_of_int d \<le> real (now' - st) / 1000000000"
      and el: "\<forall>j<k. real (fold (\<lambda>w t. wave_end n t w) (take j ws) (wave_end n now w) - st)
                        / 1000000000 < real_of_int d"
      by blast
    have el': "real (fold (\<lambda>w t. wave_end n t w) (take j (w # ws)) now - st) / 1000000000
                 < real_of_int d" if lt: "j < Suc k" for j
    proof (cases j)
      case 0
      then show ?thesis using True by simp
    next
      case (Suc j')
      then show ?thesis using el lt by simp
    qed
    have runs': "run_wave n (fold (\<lambda>w t. wave_end n t w) (take j (w # ws)) now) ((w # ws) ! j)
                        = Inr ((r # rs) ! j)" if lt: "j < Suc k" for j
    proof (cases j)
      case 0
      then show ?thesis using r by simp
    next
      case (Suc j')
      then show ?thesis using runs lt by simp
    qed
    have "Suc k \<le> length (w # ws) \<and> ws' = drop (Suc k) (w # ws) \<and> length (r # rs) = Suc k
           \<and> pts = acc @ concat (r # rs)
           \<and> (\<forall>j<Suc k. run_wave n (fold (\<lambda>w t. wave_end n t w) (take j (w # ws)) now) ((w # ws) ! j)
                        = Inr ((r # rs) ! j))
           \<and> now' = fold (\<lambda>w t. wave_end n t w) (take (Suc k) (w # ws)) now
           \<and> real_of_int d \<le> real (now' - st) / 1000000000
           \<and> (\<forall>j<Suc k. real (fold (\<lambda>w t. wave_end n t w) (take j (w # ws)) now - st)
                          / 1000000000 < real_of_int d)"
      using k t runs' el' by simp
    then show ?thesis by blast
  qed
qed

lemma while_loop_enough:
  assumes "\<forall>w \<in> set ws. \<forall>i<nat n. \<exists>s t c. replies w i = Responded s t c"
    and "real_of_int d \<le> real (fold (\<lambda>w t. wave_end n t w) ws now - st) / 1000000000"
  shows "\<exists>pts wd. while_loop n d st acc now ws = Some (Inr (pts, wd))"
  using assms
proof (induction ws arbitrary: acc now)
  case Nil
  then show ?case by simp
next
  case (Cons w ws)
  show ?case
  proof (cases "real (now - st) / 1000000000 < real_of_int d")
    case False
    then show ?thesis by simp
  next
    case True
    obtain r where r: "run_wave n now w = Inr r"
      using run_wave_responded [of n w now] Cons.prems(1) by auto
    have "\<exists>pts wd. while_loop n d st (acc @ r) (wave_end n now w) ws = Some (Inr (pts, wd))"
      using Cons.IH [of "wave_end n now w" "acc @ r"] Cons.prems by simp
    then show ?thesis using True r by simp
  qed
qed

lemma while_loop_raised:
  assumes "real (now - st) / 1000000000 < real_of_int d" "i < nat n" "replies w i = Raised a"
  shows "while_loop n d st acc now (w # ws) = Some (Inl RequestError)"
  using assms(1) run_wave_raised [OF assms(2,3), of now] by simp

lemma concat_length_const:
  "\<forall>r \<in> set rs. length r = m \<Longrightarrow> length (concat rs) = length rs * m"
  by (induction rs) simp_all

lemma ramp_up_requests_Inr:
  assumes "ramp_up_requests n d (now, ws) = Some (Inr (pts, (now', ws')))"
  shows "\<exists>k rs. k \<le> length ws \<and> ws' = drop k ws \<and> length rs = k \<and> pts = concat rs
           \<and> (\<forall>j<k. run_wave n (fold (\<lambda>w t. wave_end n t w) (take j ws) now) (ws ! j)
                        = Inr (rs ! j))
           \<and> now' = fold (\<lambda>w t. wave_end n t w) (take k ws) now
           \<and> real_of_int d \<le> real (now' - now) / 1000000000
           \<and> (\<forall>j<k. real (fold (\<lambda>w t. wave_end n t w) (take j ws) now - now) / 1000000000
                        < real_of_int d)
           \<and> (k = 0 \<or> 0 < d)"
proof -
  obtain k rs where k: "k \<le> length ws" "ws' = drop k ws" "length rs = k" "pts = concat rs"
    and runs: "\<forall>j<k. run_wave n (fold (\<lambda>w t. wave_end n t w) (take j ws) now) (ws ! j)
                        = Inr (rs ! j)"
    and t: "now' = fold (\<lambda>w t. wave_end n t w) (take k ws) now"
       "real_of_int d \<le> real (now' - now) / 1000000000"
    and el: "\<forall>j<k. real (fold (\<lambda>w t. wave_end n t w) (take j ws) now - now) / 1000000000
                        < real_of_int d"
    using while_loop_Inr [of n d now "[]" now ws pts now' ws'] assms
    by (auto simp: ramp_up_requests_def)
  have "0 < d" if "k \<noteq> 0"
  proof -
    have "real (fold (\<lambda>w t. wave_end n t w) (take 0 ws) now - now) / 1000000000 < real_of_int d"
      using el that by blast
    then show ?thesis by simp
  qed
  then show ?thesis using k runs t el by blast
qed

lemma ramp_up_requests_length:
  assumes "ramp_up_requests n d (now, ws) = Some (Inr (pts, (now', ws')))"
  shows "\<exists>k\<le>length ws. ws' = drop k ws
           \<and> now' = fold (\<lambda>w t. wave_end n t w) (take k ws) now
           \<and> length pts = k * nat n
           \<and> real_of_int d \<le> real (now' - now) / 1000000000
           \<and> (0 < d \<longrightarrow> 1 \<le> k)"
proof -
  obtain k rs where k: "k \<le> length ws" "ws' = drop k ws" "length rs = k" "pts = concat rs"
    and runs: "\<forall>j<k. run_wave n (fold (\<lambda>w t. wave_end n t w) (take j ws) now) (ws ! j)
                        = Inr (rs ! j)"
    and t: "now' = fold (\<lambda>w t. wave_end n t w) (take k ws) now"
       "real_of_int d \<le> real (now' - now) / 1000000000"
    using ramp_up_requests_Inr [OF assms] by blast
  have "\<forall>r \<in> set rs. length r = nat n"
  proof
    fix r assume "r \<in> set rs"
    then obtain j where "j < k" "r = rs ! j" using k(3) by (auto simp: in_set_conv_nth)
    then show "length r = nat n" using runs run_wave_length by blast
  qed
  then have len: "length pts = k * nat n"
    using concat_length_const [of rs "nat n"] k by simp
  have "1 \<le> k" if "0 < d"
  proof (rule ccontr)
    assume "\<not> 1 \<le> k"
    then have "k = 0" by simp
    then have "now' = now" using t(1) by simp
    then show False using t(2) that by simp
  qed
  then show ?thesis using k t len by blast
qed






text \<open>
  C10. For at least one request per wave and a positive window, the list the step runner
  returns is not empty and its length is a positive multiple of the number of requests;
  and the step runner does return when every request of the script is answered and the
  script lasts until the end of the window.
\<close>

theorem step_samples_positive_multiple:
  "(1 \<le> n \<and> 0 < d \<and> ramp_up_requests n d (now, ws) = Some (Inr (pts, wd)) \<longrightarrow>
      pts \<noteq> [] \<and> (\<exists>k\<ge>1. length pts = k * nat n))
   \<and> ((\<forall>w \<in> set ws. \<forall>i<nat n. \<exists>s t c. replies w i = Responded s t c)
        \<and> real_of_int d \<le> real (fold (\<lambda>w t. wave_end n t w) ws now - now) / 1000000000 \<longrightarrow>
      (\<exists>pts wd. ramp_up_requests n d (now, ws) = Some (Inr (pts, wd))))"
proof -
  have a: "pts \<noteq> [] \<and> (\<exists>k\<ge>1. length pts = k * nat n)"
    if n: "1 \<le> n" and d: "0 < d" and r: "ramp_up_requests n d (now, ws) = Some (Inr (pts, wd))"
  proof -
    obtain now' ws' where wd: "wd = (now', ws')" by (cases wd)
    obtain k where k: "length pts = k * nat n" "1 \<le> k"
      using ramp_up_requests_length [OF r [unfolded wd]] d by blast
    have "0 < k * nat n" using k(2) n by simp
    then have "pts \<noteq> []" using k(1) by auto
    then show ?thesis using k by blast
  qed
  have b: "\<exists>pts wd. ramp_up_requests n d (now, ws) = Some (Inr (pts, wd))"
    if "\<forall>w \<in> set ws. \<forall>i<nat n. \<exists>s t c. replies w i = Responded s t c"
      and "real_of_int d \<le> real (fold (\<lambda>w t. wave_end n t w) ws now - now) / 1000000000"
    using while_loop_enough [OF that, of "[]"] by (simp add: ramp_up_requests_def)
  show ?thesis using a b by blast
qed


theorem step_samples_positive_multiple_witness:
  "(1::int) \<le> 2 \<and> (0::int) < 5
   \<and> ramp_up_requests 2 5 (0, [steady 3000000000 200, steady 3000000000 200, steady 1 200])
       = Some (Inr ([3000, 3000, 3000, 3000], (6000000000, [steady 1 200])))
   \<and> [3000, 3000, 3000, 3000 :: real] \<noteq> []
   \<and> length [3000, 3000, 3000, 3000 :: real] = 2 * nat 2"
  using step_samples_positive_multiple [of 2 5 0
      "[steady 3000000000 200, steady 3000000000 200, steady 1 200]"
      "[3000, 3000, 3000, 3000]" "(6000000000, [steady 1 200])"]
  by (simp add: ramp_up_requests_def run_wave_def tasks_def wave_end_def steady_def upt_conv_Cons)

subsection \<open>Requests that fail\<close>

lemma while_loop_raised_at:
  assumes "j < length ws"
    and "\<forall>j'<j. \<forall>i<nat n. \<exists>s t c. replies (ws ! j') i = Responded s t c"
    and "\<exists>i<nat n. \<exists>a. replies (ws ! j) i = Raised a"
    and "\<forall>j'\<le>j. real (fold (\<lambda>w t. wave_end n t w) (take j' ws) now - st) / 1000000000
                  < real_of_int d"
  shows "while_loop n d st acc now ws = Some (Inl RequestError)"
  using assms
proof (induction ws arbitrary: j acc now)
  case Nil
  then show ?case by simp
next
  case (Cons w ws)
  have el: "real (now - st) / 1000000000 < real_of_int d"
    using Cons.prems(4) [rule_format, of 0] by simp
  show ?case
  proof (cases j)
    case 0
    then obtain i a where "i < nat n" "replies w i = Raised a"
      using Cons.prems(3) by auto
    then show ?thesis using while_loop_raised [OF el] by blast
  next
    case (Suc j0)
    have "\<forall>i<nat n. \<exists>s t c. replies w i = Responded s t c"
      using Cons.prems(2) [rule_format, of 0] Suc by simp
    then obtain r where r: "run_wave n now w = Inr r"
      using run_wave_responded by blast
    have a1: "j0 < length ws" using Cons.prems(1) Suc by simp
    have a2: "\<forall>j'<j0. \<forall>i<nat n. \<exists>s t c. replies (ws ! j') i = Responded s t c"
    proof (intro allI impI)
      fix j' i assume "j' < j0" "i < nat n"
      then show "\<exists>s t c. replies (ws ! j') i = Responded s t c"
        using Cons.prems(2) [rule_format, of "Suc j'" i] Suc by simp
    qed
    have a3: "\<exists>i<nat n. \<exists>a. replies (ws ! j0) i = Raised a"
      using Cons.prems(3) Suc by simp
    have a4: "\<forall>j'\<le>j0. real (fold (\<lambda>w t. wave_end n t w) (take j' ws) (wave_end n now w) - st)
                  / 1000000000 < real_of_int d"
    proof (intro allI impI)
      fix j' assume "j' \<le> j0"
      then show "real (fold (\<lambda>w t. wave_end n t w) (take j' ws) (wave_end n now w) - st)
                  / 1000000000 < real_of_int d"
        using Cons.prems(4) [rule_format, of "Suc j'"] Suc by simp
    qed
    have "while_loop n d st (acc @ r) (wave_end n now w) ws = Some (Inl RequestError)"
      using Cons.IH [OF a1 a2 a3 a4] .
    then show ?thesis using el r by simp
  qed
qed

lemma for_loop_append:
  "for_loop (pre @ post) sr wd =
     (case for_loop pre sr wd of
        None \<Rightarrow> None
      | Some (Inl e) \<Rightarrow> Some (Inl e)
      | Some (Inr (sr_mid, wd_mid)) \<Rightarrow> for_loop post sr_mid wd_mid)"
proof (induction pre arbitrary: sr wd)
  case Nil
  then show ?case by simp
next
  case (Cons n pre)
  show ?case
    by (simp add: Cons.IH split: option.splits sum.splits prod.splits)
qed

lemma for_loop_step_raised:
  assumes "for_loop pre sr wd = Some (Inr (sr_mid, wd_mid))"
    and "ramp_up_requests n duration_per_step wd_mid = Some (Inl e)"
  shows "for_loop (pre @ n # post) sr wd = Some (Inl e)"
  using assms by (simp add: for_loop_append)


text \<open>
  C3 (as amended). A request that gets a response gives an ordinary latency sample,
  whatever the HTTP status of the response; there is no failed sample. A request whose
  \<open>client.post\<close> raises in any wave that a step launches (every earlier wave of the
  step was answered, and the window was still open when each wave up to that one was
  launched) makes the step runner raise. A step that raises at any level makes the loop
  over the levels, and \<open>main\<close>, raise the same exception. When the step runner returns a
  list, the waves it launched are exactly those before the first check at which the
  window had elapsed, every request of each of them was answered, and the list holds
  the latency of each of them.
\<close>

theorem raised_request_aborts_run:
  "send_request launch (Responded started took status) = Inr (real took / 1000000)
   \<and> (j < length ws
        \<and> (\<forall>j'<j. \<forall>i<nat n. \<exists>s t c. replies (ws ! j') i = Responded s t c)
        \<and> (\<exists>i<nat n. \<exists>a. replies (ws ! j) i = Raised a)
        \<and> (\<forall>j'\<le>j. real (fold (\<lambda>w t. wave_end n t w) (take j' ws) now - now) / 1000000000
                      < real_of_int d) \<longrightarrow>
        ramp_up_requests n d (now, ws) = Some (Inl RequestError))
   \<and> (for_loop pre sr wd = Some (Inr (sr_mid, wd_mid))
        \<and> ramp_up_requests level duration_per_step wd_mid = Some (Inl e) \<longrightarrow>
        for_loop (pre @ level # post) sr wd = Some (Inl e))
   \<and> (step_plan start_requests max_requests duration = Inr (pre @ level # post)
        \<and> for_loop pre no_series wd = Some (Inr (sr_mid, wd_mid))
        \<and> ramp_up_requests level duration_per_step wd_mid = Some (Inl e) \<longrightarrow>
        main start_requests max_requests duration wd = Some (Inl e))
   \<and> (ramp_up_requests n d (now, ws) = Some (Inr (pts, (now', ws'))) \<longrightarrow>
        (\<exists>k rs. k \<le> length ws \<and> ws' = drop k ws \<and> length rs = k \<and> pts = concat rs
           \<and> (\<forall>j<k. real (fold (\<lambda>w t. wave_end n t w) (take j ws) now - now) / 1000000000
                        < real_of_int d
                 \<and> length (rs ! j) = nat n
                 \<and> (\<forall>i<nat n. send_request (fold (\<lambda>w t. wave_end n t w) (take j ws) now)
                                  (replies (ws ! j) i) = Inr (rs ! j ! i)))
           \<and> real_of_int d
                \<le> real (fold (\<lambda>w t. wave_end n t w) (take k ws) now - now) / 1000000000))"
proof -
  have a: "ramp_up_requests n d (now, ws) = Some (Inl RequestError)"
    if "j < length ws"
      "\<forall>j'<j. \<forall>i<nat n. \<exists>s t c. replies (ws ! j') i = Responded s t c"
      "\<exists>i<nat n. \<exists>a. replies (ws ! j) i = Raised a"
      "\<forall>j'\<le>j. real (fold (\<lambda>w t. wave_end n t w) (take j' ws) now - now) / 1000000000
                      < real_of_int d"
    using while_loop_raised_at [OF that, of "[]"] by (simp add: ramp_up_requests_def)
  have b: "main start_requests max_requests duration wd = Some (Inl e)"
    if "step_plan start_requests max_requests duration = Inr (pre @ level # post)"
      "for_loop pre no_series wd = Some (Inr (sr_mid, wd_mid))"
      "ramp_up_requests level duration_per_step wd_mid = Some (Inl e)"
    using that(1) for_loop_step_raised [OF that(2,3), of post] by (simp add: main_def)
  have c: "\<exists>k rs. k \<le> length ws \<and> ws' = drop k ws \<and> length rs = k \<and> pts = concat rs
           \<and> (\<forall>j<k. real (fold (\<lambda>w t. wave_end n t w) (take j ws) now - now) / 1000000000
                        < real_of_int d
                 \<and> length (rs ! j) = nat n
                 \<and> (\<forall>i<nat n. send_request (fold (\<lambda>w t. wave_end n t w) (take j ws) now)
                                  (replies (ws ! j) i) = Inr (rs ! j ! i)))
           \<and> real_of_int d
                \<le> real (fold (\<lambda>w t. wave_end n t w) (take k ws) now - now) / 1000000000"
    if r: "ramp_up_requests n d (now, ws) = Some (Inr (pts, (now', ws')))"
  proof -
    obtain k rs where k: "k \<le> length ws" "ws' = drop k ws" "length rs = k" "pts = concat rs"
      and runs: "\<forall>j<k. run_wave n (fold (\<lambda>w t. wave_end n t w) (take j ws) now) (ws ! j)
                        = Inr (rs ! j)"
      and t: "now' = fold (\<lambda>w t. wave_end n t w) (take k ws) now"
        "real_of_int d \<le> real (now' - now) / 1000000000"
      and el: "\<forall>j<k. real (fold (\<lambda>w t. wave_end n t w) (take j ws) now - now) / 1000000000
                        < real_of_int d"
      using ramp_up_requests_Inr [OF r] by blast
    have "real (fold (\<lambda>w t. wave_end n t w) (take j ws) now - now) / 1000000000
                        < real_of_int d
          \<and> length (rs ! j) = nat n
          \<and> (\<forall>i<nat n. send_request (fold (\<lambda>w t. wave_end n t w) (take j ws) now)
                                  (replies (ws ! j) i) = Inr (rs ! j ! i))"
      if "j < k" for j
      using runs el that run_wave_length run_wave_nth by blast
    then show ?thesis using k t by blast
  qed
  show ?thesis using a b c for_loop_step_raised send_request_Responded by blast
qed

lemma rd_5000: "rd 5000 = 5000"
  using rd_of_int [of 5000] by simp

lemma rd_6000: "rd 6000 = 6000"
  using rd_of_int [of 6000] by simp

lemmas run_simps =
  main_def step_plan_def py_range_def range_len_def duration_per_step_def ramp_up_requests_def
  run_wave_def tasks_def wave_end_def steady_def failing_def pause_def mean_def record_step_def
  no_series_def upt_conv_Cons


theorem raised_request_aborts_run_witness:
  "replies (steady 2000000000 200) 0 = Responded 0 2000000000 200
   \<and> replies (failing 1 2000000) 1 = Raised 2000000
   \<and> ramp_up_requests 3 5 (0, [steady 2000000000 200, failing 1 2000000, steady 1 200])
        = Some (Inl RequestError)
   \<and> step_plan 3 4 5 = Inr ([3] @ 4 # [])
   \<and> for_loop [3] no_series (0, [steady 5000000000 200, failing 1 2000000])
        = Some (Inr (\<lparr>average_response_times = [5000], concurrent_users = [3],
                      all_process_times = [[5000, 5000, 5000]]\<rparr>,
                     (6000000000, [failing 1 2000000])))
   \<and> ramp_up_requests 4 duration_per_step (6000000000, [failing 1 2000000])
        = Some (Inl RequestError)
   \<and> main 3 4 5 (0, [steady 5000000000 200, failing 1 2000000]) = Some (Inl RequestError)
   \<and> send_request 7 (Responded 0 2000000 500) = Inr 2
   \<and> ramp_up_requests 2 5 (0, [steady 6000000000 500, steady 1 200])
        = Some (Inr ([6000, 6000], (6000000000, [steady 1 200])))"
  using raised_request_aborts_run [where launch = 7 and started = 0 and took = 2000000
      and status = 500 and j = 1 and n = 3 and d = 5 and now = 0
      and ws = "[steady 2000000000 200, failing 1 2000000, steady 1 200]"]
    raised_request_aborts_run [where pre = "[3]" and level = 4 and post = "[]"
      and sr = no_series and wd = "(0, [steady 5000000000 200, failing 1 2000000])"
      and sr_mid = "\<lparr>average_response_times = [5000], concurrent_users = [3],
                      all_process_times = [[5000, 5000, 5000]]\<rparr>"
      and wd_mid = "(6000000000, [failing 1 2000000])" and e = RequestError
      and start_requests = 3 and max_requests = 4 and duration = 5]
    raised_request_aborts_run [where n = 2 and d = 5 and now = 0
      and ws = "[steady 6000000000 500, steady 1 200]" and pts = "[6000, 6000]"
      and now' = 6000000000 and ws' = "[steady 1 200]"]
    calculate_ramp_up_step_exact [of 5 4 3] rd_5000
  by (simp add: run_simps)

text \<open>
  C3 as stated fails: a step of three requests of which one raises ends with the
  exception, and so does the run; and a response with status 500 gives a sample that
  enters the mean.
\<close>

theorem failing_request_counterexample:
  "ramp_up_requests 3 5 (0, [failing 1 2000000, steady 2000000 200]) = Some (Inl RequestError)
   \<and> main 3 4 5 (0, [failing 1 2000000, steady 2000000 200]) = Some (Inl RequestError)
   \<and> ramp_up_requests 1 5 (0, [steady 6000000000 500])
        = Some (Inr ([6000], (6000000000, [])))
   \<and> mean [6000] = Inr 6000"
  using calculate_ramp_up_step_exact [of 5 4 3] rd_6000
  by (simp add: run_simps)

subsection \<open>Steps without samples\<close>

lemma record_step_empty: "record_step sr n [] = Inr sr"
  by (simp add: record_step_def)

lemma record_step_ok:
  assumes "record_step sr n pts = Inr sr'" "series_ok sr"
  shows "series_ok sr'"
proof (cases "pts = []")
  case True
  then show ?thesis using assms by (simp add: record_step_def)
next
  case False
  then have "mean pts = Inr (rd (sum_list pts / real (length pts)))" by (simp add: mean_def)
  then show ?thesis using assms False by (auto simp: record_step_def series_ok_def)
qed

lemma for_loop_ok:
  assumes "for_loop levels sr wd = Some (Inr (sr', wd'))" "series_ok sr"
  shows "series_ok sr'"
  using assms
proof (induction levels arbitrary: sr wd)
  case Nil
  then show ?case by simp
next
  case (Cons n levels)
  from Cons.prems(1) obtain pts now ws sr1 where
    "record_step sr n pts = Inr sr1"
    "for_loop levels sr1 (now + 1000000000, ws) = Some (Inr (sr', wd'))"
    by (auto split: option.splits sum.splits prod.splits)
  then show ?case using Cons.IH record_step_ok [OF _ Cons.prems(2)] by blast
qed

lemma no_series_ok: "series_ok no_series"
  by (simp add: series_ok_def no_series_def)

lemma main_ok:
  assumes "main s m d wd = Some (Inr (sr', wd'))"
  shows "series_ok sr'"
proof -
  obtain levels where "for_loop levels no_series wd = Some (Inr (sr', wd'))"
    using assms by (auto simp: main_def split: sum.splits)
  then show ?thesis using for_loop_ok no_series_ok by blast
qed

lemma nonempty_statistics:
  assumes "sample \<noteq> []"
  shows "\<exists>p mx. percentile sample 95 = Some p \<and> py_max sample = Inr mx"
  using assms by (cases sample) (simp_all add: percentile_def py_max_def Let_def)

text \<open>
  C6. A step whose latency list is empty adds nothing to the three lists: the loop goes
  on with the lists as they were. So at the end of a run the three lists have the same
  length, no recorded sample is empty, every average is the mean of its sample, and the
  percentile and the maximum of every recorded sample exist.
\<close>

theorem empty_step_is_left_out:
  "record_step sr n [] = Inr sr
   \<and> (ramp_up_requests n duration_per_step wd = Some (Inr ([], (now, ws))) \<longrightarrow>
        for_loop (n # levels) sr wd = for_loop levels sr (now + 1000000000, ws))
   \<and> (main start_requests max_requests duration wd0 = Some (Inr (sr', wd')) \<longrightarrow>
        length (average_response_times sr') = length (all_process_times sr')
      \<and> length (concurrent_users sr') = length (all_process_times sr')
      \<and> [] \<notin> set (all_process_times sr')
      \<and> map mean (all_process_times sr') = map Inr (average_response_times sr')
      \<and> (\<forall>sample \<in> set (all_process_times sr').
            \<exists>p mx. percentile sample 95 = Some p \<and> py_max sample = Inr mx))"
proof -
  have a: "for_loop (n # levels) sr wd = for_loop levels sr (now + 1000000000, ws)"
    if "ramp_up_requests n duration_per_step wd = Some (Inr ([], (now, ws)))"
    using that by (simp add: record_step_empty)
  have b: "length (average_response_times sr') = length (all_process_times sr')
      \<and> length (concurrent_users sr') = length (all_process_times sr')
      \<and> [] \<notin> set (all_process_times sr')
      \<and> map mean (all_process_times sr') = map Inr (average_response_times sr')
      \<and> (\<forall>sample \<in> set (all_process_times sr').
            \<exists>p mx. percentile sample 95 = Some p \<and> py_max sample = Inr mx)"
    if "main start_requests max_requests duration wd0 = Some (Inr (sr', wd'))"
  proof -
    have ok: "series_ok sr'" using main_ok [OF that] .
    then have "\<forall>sample \<in> set (all_process_times sr'). sample \<noteq> []"
      by (auto simp: series_ok_def)
    then show ?thesis using ok nonempty_statistics by (simp add: series_ok_def)
  qed
  show ?thesis using a b record_step_empty by blast
qed

theorem empty_step_is_left_out_witness:
  "ramp_up_requests 0 duration_per_step (0, [pause 5000000000, steady 6000000000 200])
     = Some (Inr ([], (5000000000, [steady 6000000000 200])))
   \<and> main 0 1 5 (0, [pause 5000000000, steady 6000000000 200])
       = Some (Inr (\<lparr>average_response_times = [6000], concurrent_users = [1],
                     all_process_times = [[6000]]\<rparr>, (13000000000, [])))
   \<and> percentile [6000] 95 = Some 6000 \<and> py_max [6000] = Inr 6000"
  using empty_step_is_left_out [of no_series 0 "(0, [pause 5000000000, steady 6000000000 200])"
      5000000000 "[steady 6000000000 200]" "[1]" 0 1 5
      "(0, [pause 5000000000, steady 6000000000 200])"
      "\<lparr>average_response_times = [6000], concurrent_users = [1], all_process_times = [[6000]]\<rparr>"
      "(13000000000, [])"]
    calculate_ramp_up_step_exact [of 5 1 0] rd_6000
  by (simp add: run_simps percentile_def lerp_def rd_def py_max_def)

subsection \<open>Configurations that are not valid\<close>

lemma div_below_one:
  assumes "0 < (b::int)" "a < b"
  shows "a div b \<le> 0"
proof -
  have "a div b \<le> (b - 1) div b" using assms by (intro zdiv_mono1) simp_all
  also have "(b - 1) div b = 0" using assms(1) by (simp add: div_pos_pos_trivial)
  finally show ?thesis .
qed

lemma py_range_empty:
  assumes "step \<noteq> 0" "0 < step \<longrightarrow> stop \<le> start" "step < 0 \<longrightarrow> start \<le> stop"
  shows "py_range start stop step = Inr []"
proof (cases "0 < step")
  case True
  then have "(stop - start + step - 1) div step \<le> 0"
    using assms(2) by (intro div_below_one) simp_all
  then show ?thesis using True by (simp add: py_range_def range_len_def)
next
  case False
  then have neg: "step < 0" using assms(1) by simp
  then have "(start - stop - step - 1) div (- step) \<le> 0"
    using assms(3) by (intro div_below_one) simp_all
  then show ?thesis using neg by (simp add: py_range_def range_len_def)
qed

lemma py_range_neg_bounds:
  assumes "step < 0" "py_range start stop step = Inr levels" "l \<in> set levels"
  shows "stop < l \<and> l \<le> start"
proof -
  define p where "p = - step"
  have p: "0 < p" using assms(1) by (simp add: p_def)
  define q where "q = (start - stop + p - 1) div p"
  have len: "range_len start stop step = nat q"
    using assms(1) by (simp add: range_len_def q_def p_def)
  obtain i where i: "i < nat q" "l = start + int i * step"
    using assms len by (auto simp: py_range_def)
  have "int i + 1 \<le> q" using i(1) by simp
  then have "(int i + 1) * p \<le> q * p" using p by (simp add: mult_right_mono)
  moreover have "q * p \<le> start - stop + p - 1"
  proof -
    have "q * p + (start - stop + p - 1) mod p = start - stop + p - 1"
      by (simp add: q_def)
    moreover have "0 \<le> (start - stop + p - 1) mod p" using p by simp
    ultimately show ?thesis by linarith
  qed
  ultimately have "int i * p \<le> start - stop - 1" by (simp add: algebra_simps)
  moreover have "0 \<le> int i * p" using p by simp
  moreover have "l = start - int i * p" using i(2) by (simp add: p_def)
  ultimately show ?thesis by linarith
qed

lemma py_range_neg_hd:
  assumes "step < 0" "stop < start" "py_range start stop step = Inr levels"
  shows "levels \<noteq> [] \<and> hd levels = start"
proof -
  define p where "p = - step"
  have p: "0 < p" using assms(1) by (simp add: p_def)
  have "start - stop + p - 1 = (start - stop - 1) + p" by simp
  then have "(start - stop + p - 1) div p = (start - stop - 1) div p + 1"
    using p by (simp only: div_add_self2 [of p "start - stop - 1"])
  moreover have "0 \<le> (start - stop - 1) div p"
    using p assms(2) by (simp add: pos_imp_zdiv_nonneg_iff)
  ultimately have "range_len start stop step = Suc (nat ((start - stop - 1) div p))"
    using assms(1) by (simp add: range_len_def p_def nat_add_distrib)
  then show ?thesis
    using assms(1,3) by (auto simp: py_range_def upt_conv_Cons simp del: upt_Suc)
qed

lemma py_range_neg_sorted:
  assumes "step < 0" "py_range start stop step = Inr levels"
  shows "sorted_wrt (>) levels"
proof -
  have "levels = map (\<lambda>i. start + int i * step) [0..<range_len start stop step]"
    using assms by (auto simp: py_range_def)
  then show ?thesis
    using assms(1) by (simp add: sorted_wrt_map sorted_wrt_upt mult_less_cancel_right)
qed

lemma stride_any:
  assumes "duration < 0 \<or> 5 \<le> duration" "\<bar>max_requests - start_requests\<bar> < 2 ^ 53"
    "\<bar>duration\<bar> < 2 ^ 53"
  shows "calculate_ramp_up_step start_requests max_requests duration
           = Inr \<lceil>real_of_int (max_requests - start_requests) / real_of_int (duration div 5)\<rceil>"
proof -
  have "duration div 5 \<noteq> 0" using assms(1) by auto
  then show ?thesis
    using calculate_ramp_up_step_exact [OF _ assms(2) div5_bound [OF assms(3)]] by simp
qed

lemma main_short_duration:
  assumes "0 \<le> duration" "duration < 5"
  shows "main start_requests max_requests duration wd = Some (Inl ZeroDivisionError)"
proof -
  have "duration div 5 = 0" using assms by (simp add: div_pos_pos_trivial)
  then show ?thesis
    using calculate_ramp_up_step_zero by (simp add: main_def step_plan_def)
qed

lemma negative_duration_range:
  assumes "duration < 0"
    and "stride = \<lceil>real_of_int (max_requests - start_requests) / real_of_int (duration div 5)\<rceil>"
    and "stride \<noteq> 0"
  shows "py_range start_requests (max_requests + 1) stride = Inr []"
proof -
  define t where "t = duration div 5"
  have t: "t < 0" using assms(1) by (simp add: t_def neg_imp_zdiv_neg_iff)
  have pos: "max_requests + 1 \<le> start_requests" if "0 < stride"
  proof (rule ccontr)
    assume "\<not> max_requests + 1 \<le> start_requests"
    then have "0 \<le> real_of_int (max_requests - start_requests)" by simp
    then have "real_of_int (max_requests - start_requests) / real_of_int t \<le> 0"
      using t by (simp add: divide_nonneg_neg)
    then have "stride \<le> 0" unfolding assms(2) t_def by linarith
    then show False using that by simp
  qed
  have neg: "start_requests \<le> max_requests + 1" if "stride < 0"
  proof (rule ccontr)
    assume "\<not> start_requests \<le> max_requests + 1"
    then have "real_of_int (max_requests - start_requests) < 0" by simp
    then have "0 < real_of_int (max_requests - start_requests) / real_of_int t"
      using t by (simp add: divide_neg_neg)
    then have "0 < stride" unfolding assms(2) t_def by linarith
    then show False using that by simp
  qed
  show ?thesis using assms(3) pos neg by (intro py_range_empty) auto
qed

lemma reversed_stride:
  assumes "max_requests < start_requests" "5 \<le> duration"
  shows "\<lceil>real_of_int (max_requests - start_requests) / real_of_int (duration div 5)\<rceil> \<le> 0"
proof -
  have t: "1 \<le> duration div 5" using assms(2) by simp
  have "real_of_int (max_requests - start_requests) / real_of_int (duration div 5) < 0"
    using assms(1) t by (simp add: divide_neg_pos)
  then show ?thesis by linarith
qed


text \<open>
  C4 (as amended). The configuration is not validated. With a duration from 0 to 4
  seconds the run ends before any step with the division by zero of the stride. For any
  other duration, with span and duration below \<open>2 ^ 53\<close> in absolute value, the stride is
  the ceiling of the span over \<open>floor(duration / 5)\<close>; when it is 0 the run ends with
  the \<open>ValueError\<close> of \<open>range\<close>, and otherwise the run is the loop over the levels of
  the range from \<open>start_requests\<close> by the stride. With a negative duration and a stride
  other than 0 that range is empty: no step runs and the lists stay empty. With
  \<open>max_requests < start_requests\<close> and a duration of at least 5 seconds the stride is at
  most 0, and when it is negative the levels descend, all of them above \<open>max_requests\<close>
  and at most \<open>start_requests\<close>, starting at \<open>start_requests\<close> when
  \<open>max_requests + 1 < start_requests\<close>.
\<close>

theorem configuration_is_not_validated:
  "(0 \<le> duration \<and> duration < 5 \<longrightarrow>
      main start_requests max_requests duration wd = Some (Inl ZeroDivisionError))
   \<and> ((duration < 0 \<or> 5 \<le> duration) \<and> \<bar>max_requests - start_requests\<bar> < 2 ^ 53
        \<and> \<bar>duration\<bar> < 2 ^ 53 \<longrightarrow>
      (\<exists>stride levels.
          stride = \<lceil>real_of_int (max_requests - start_requests)
                     / real_of_int (duration div 5)\<rceil>
        \<and> calculate_ramp_up_step start_requests max_requests duration = Inr stride
        \<and> levels = map (\<lambda>i. start_requests + int i * stride)
                      [0..<range_len start_requests (max_requests + 1) stride]
        \<and> (stride = 0 \<longrightarrow>
              main start_requests max_requests duration wd = Some (Inl ValueError))
        \<and> (stride \<noteq> 0 \<longrightarrow>
              step_plan start_requests max_requests duration = Inr levels
            \<and> main start_requests max_requests duration wd = for_loop levels no_series wd)
        \<and> (duration < 0 \<and> stride \<noteq> 0 \<longrightarrow>
              levels = []
            \<and> main start_requests max_requests duration wd = Some (Inr (no_series, wd)))
        \<and> (max_requests < start_requests \<and> 5 \<le> duration \<longrightarrow> stride \<le> 0)
        \<and> (max_requests < start_requests \<and> 5 \<le> duration \<and> stride < 0 \<longrightarrow>
              sorted_wrt (>) levels
            \<and> (\<forall>l \<in> set levels. max_requests < l \<and> l \<le> start_requests)
            \<and> (max_requests + 1 < start_requests \<longrightarrow>
                  levels \<noteq> [] \<and> hd levels = start_requests))))"
proof -
  have b: "\<exists>stride levels.
          stride = \<lceil>real_of_int (max_requests - start_requests)
                     / real_of_int (duration div 5)\<rceil>
        \<and> calculate_ramp_up_step start_requests max_requests duration = Inr stride
        \<and> levels = map (\<lambda>i. start_requests + int i * stride)
                      [0..<range_len start_requests (max_requests + 1) stride]
        \<and> (stride = 0 \<longrightarrow>
              main start_requests max_requests duration wd = Some (Inl ValueError))
        \<and> (stride \<noteq> 0 \<longrightarrow>
              step_plan start_requests max_requests duration = Inr levels
            \<and> main start_requests max_requests duration wd = for_loop levels no_series wd)
        \<and> (duration < 0 \<and> stride \<noteq> 0 \<longrightarrow>
              levels = []
            \<and> main start_requests max_requests duration wd = Some (Inr (no_series, wd)))
        \<and> (max_requests < start_requests \<and> 5 \<le> duration \<longrightarrow> stride \<le> 0)
        \<and> (max_requests < start_requests \<and> 5 \<le> duration \<and> stride < 0 \<longrightarrow>
              sorted_wrt (>) levels
            \<and> (\<forall>l \<in> set levels. max_requests < l \<and> l \<le> start_requests)
            \<and> (max_requests + 1 < start_requests \<longrightarrow>
                  levels \<noteq> [] \<and> hd levels = start_requests))"
    if dom: "duration < 0 \<or> 5 \<le> duration" and ba: "\<bar>max_requests - start_requests\<bar> < 2 ^ 53"
      and bd: "\<bar>duration\<bar> < 2 ^ 53"
  proof -
    define stride where
      "stride = \<lceil>real_of_int (max_requests - start_requests) / real_of_int (duration div 5)\<rceil>"
    define levels where
      "levels = map (\<lambda>i. start_requests + int i * stride)
                  [0..<range_len start_requests (max_requests + 1) stride]"
    have c: "calculate_ramp_up_step start_requests max_requests duration = Inr stride"
      using stride_any [OF dom ba bd] by (simp add: stride_def)
    have z: "main start_requests max_requests duration wd = Some (Inl ValueError)"
      if "stride = 0"
      using c that by (simp add: main_def step_plan_def py_range_def)
    have r: "py_range start_requests (max_requests + 1) stride = Inr levels" if "stride \<noteq> 0"
      using that by (simp add: py_range_def levels_def)
    have nz: "step_plan start_requests max_requests duration = Inr levels
            \<and> main start_requests max_requests duration wd = for_loop levels no_series wd"
      if "stride \<noteq> 0"
      using c r [OF that] by (simp add: main_def step_plan_def)
    have ng: "levels = []
            \<and> main start_requests max_requests duration wd = Some (Inr (no_series, wd))"
      if "duration < 0" "stride \<noteq> 0"
    proof -
      have "py_range start_requests (max_requests + 1) stride = Inr []"
        using negative_duration_range [OF that(1) stride_def that(2)] .
      then have "levels = []" using r [OF that(2)] by simp
      then show ?thesis using nz [OF that(2)] by simp
    qed
    have rv: "stride \<le> 0" if "max_requests < start_requests" "5 \<le> duration"
      using reversed_stride [OF that] by (simp add: stride_def)
    have ds: "sorted_wrt (>) levels
            \<and> (\<forall>l \<in> set levels. max_requests < l \<and> l \<le> start_requests)
            \<and> (max_requests + 1 < start_requests \<longrightarrow>
                  levels \<noteq> [] \<and> hd levels = start_requests)"
      if neg: "stride < 0"
    proof -
      have rl: "py_range start_requests (max_requests + 1) stride = Inr levels"
        using r neg by simp
      have "\<forall>l \<in> set levels. max_requests < l \<and> l \<le> start_requests"
      proof
        fix l assume "l \<in> set levels"
        then have "max_requests + 1 < l \<and> l \<le> start_requests"
          by (rule py_range_neg_bounds [OF neg rl])
        then show "max_requests < l \<and> l \<le> start_requests" by simp
      qed
      moreover have "max_requests + 1 < start_requests \<longrightarrow>
                       levels \<noteq> [] \<and> hd levels = start_requests"
        using py_range_neg_hd [OF neg _ rl] by blast
      ultimately show ?thesis using py_range_neg_sorted [OF neg rl] by blast
    qed
    show ?thesis
      using c z nz ng rv ds stride_def levels_def
      by (intro exI [of _ stride] exI [of _ levels]) blast
  qed
  show ?thesis using main_short_duration b by blast
qed

lemma ceiling_small_negative: "\<lceil>- (1 / 20 :: real)\<rceil> = 0"
  by (rule ceiling_unique) simp_all

theorem configuration_is_not_validated_witness:
  "(0::int) \<le> 3 \<and> (3::int) < 5 \<and> main 1 10 3 (0, []) = Some (Inl ZeroDivisionError)
   \<and> (-5::int) < 0 \<and> \<bar>10 - 1 :: int\<bar> < 2 ^ 53 \<and> \<bar>-5 :: int\<bar> < 2 ^ 53
   \<and> calculate_ramp_up_step 1 10 (-5) = Inr (-9)
   \<and> main 1 10 (-5) (0, []) = Some (Inr (no_series, (0, [])))
   \<and> (1::int) < 3 \<and> (5::int) \<le> 5 \<and> \<bar>1 - 3 :: int\<bar> < 2 ^ 53 \<and> \<bar>5 :: int\<bar> < 2 ^ 53
   \<and> calculate_ramp_up_step 3 1 5 = Inr (-2)
   \<and> step_plan 3 1 5 = Inr [3]
   \<and> main 3 1 5 (0, [steady 5000000000 200])
       = Some (Inr (\<lparr>average_response_times = [5000], concurrent_users = [3],
                     all_process_times = [[5000, 5000, 5000]]\<rparr>, (6000000000, [])))
   \<and> step_plan 9 1 10 = Inr [9, 5]
   \<and> calculate_ramp_up_step 2 1 100 = Inr 0
   \<and> main 2 1 100 (0, []) = Some (Inl ValueError)"
  using configuration_is_not_validated [where duration = 3 and start_requests = 1
      and max_requests = 10 and wd = "(0, [])"]
    configuration_is_not_validated [where duration = "-5" and start_requests = 1
      and max_requests = 10 and wd = "(0, [])"]
    configuration_is_not_validated [where duration = 5 and start_requests = 3
      and max_requests = 1 and wd = "(0, [steady 5000000000 200])"]
    configuration_is_not_validated [where duration = 10 and start_requests = 9
      and max_requests = 1 and wd = "(0, [])"]
    configuration_is_not_validated [where duration = 100 and start_requests = 2
      and max_requests = 1 and wd = "(0, [])"]
    calculate_ramp_up_step_exact [of "-5" 10 1] calculate_ramp_up_step_exact [of 5 1 3]
    calculate_ramp_up_step_exact [of 10 1 9] calculate_ramp_up_step_exact [of 100 1 2]
    calculate_ramp_up_step_zero [of 3 1 10] rd_5000
  by (simp add: run_simps ceiling_small_negative)

text \<open>
  C4 as stated fails: from 3 down to 1 in 5 seconds the run is not rejected, it runs a
  step of 3 requests; a duration of 0 ends in a division by zero; a duration of -5 runs
  no step and ends without any error.
\<close>

theorem configuration_rejected_counterexample:
  "main 3 1 5 (0, [steady 5000000000 200])
       = Some (Inr (\<lparr>average_response_times = [5000], concurrent_users = [3],
                     all_process_times = [[5000, 5000, 5000]]\<rparr>, (6000000000, [])))
   \<and> main 1 10 0 (0, [steady 5000000000 200]) = Some (Inl ZeroDivisionError)
   \<and> main 1 10 (-5) (0, [steady 5000000000 200])
       = Some (Inr (no_series, (0, [steady 5000000000 200])))"
  using calculate_ramp_up_step_exact [of 5 1 3] calculate_ramp_up_step_zero [of 0 1 10]
    calculate_ramp_up_step_exact [of "-5" 10 1] rd_5000
  by (simp add: run_simps)

end
